(* ===== verification/Prelude.thy ===== *)
theory Prelude
  imports Main "HOL-Library.Monad_Syntax" "HOL-Library.AList" "HOL-Library.Word"
begin

text \<open>
  The vocabulary every component shares.

  \<^item> A Rust panic (a failed \<open>assert!\<close>, an \<open>expect\<close> on \<open>None\<close>, an arithmetic operation that
    panics, an index out of range) is the value \<^term>\<open>None\<close> of the option type
    \<open>'a panics\<close>; \<open>Some x\<close> is a normal return. The option monad of
    \<open>HOL-Library.Monad_Syntax\<close> sequences such computations, so a panic ends the handler.
  \<^item> A Rust \<open>Result<T, E>\<close> is the sum \<open>'e + 'a\<close> with \<^term>\<open>Inl\<close> for the error, and the
    \<open>?\<close> operator is \<open>try_then\<close> (or \<open>try_panic\<close> where the computation may also panic).
  \<^item> \<open>u64\<close> newtypes (rounds, epochs, sequence numbers) are naturals; their arithmetic is the
    checked arithmetic of the source, whose overflow is a panic at \<open>2 ^ 64\<close>.
  \<^item> A \<open>BTreeMap\<close> is the list of its entries in key order (\<open>bt_wf\<close>), which is also its
    iteration order. A \<open>HashMap\<close> is a list of entries with distinct keys (\<open>hm_wf\<close>); its
    list order stands for the unspecified iteration order.
\<close>

named_theorems panic_defs "definitions of the checked operations"

section \<open>Panics and results\<close>

type_synonym 'a panics = "'a option"

definition rust_assert :: "bool \<Rightarrow> unit panics" where
  "rust_assert P = (if P then Some () else None)"

definition try_then :: "'e + 'a \<Rightarrow> ('a \<Rightarrow> 'e + 'b) \<Rightarrow> 'e + 'b" where
  "try_then m f = (case m of Inl e \<Rightarrow> Inl e | Inr x \<Rightarrow> f x)"

definition try_panic :: "('e + 'a) panics \<Rightarrow> ('a \<Rightarrow> ('e + 'b) panics) \<Rightarrow> ('e + 'b) panics" where
  "try_panic m f = (case m of None \<Rightarrow> None | Some (Inl e) \<Rightarrow> Some (Inl e) | Some (Inr x) \<Rightarrow> f x)"

definition ok_or :: "'a option \<Rightarrow> 'e \<Rightarrow> 'e + 'a" where
  "ok_or x e = (case x of None \<Rightarrow> Inl e | Some y \<Rightarrow> Inr y)"

lemma rust_assert_simps [simp]:
  "rust_assert True = Some ()" "rust_assert False = None"
  by (simp_all add: rust_assert_def)

lemma rust_assert_eq_Some [simp]: "rust_assert P = Some u \<longleftrightarrow> P"
  by (simp add: rust_assert_def)

lemma rust_assert_eq_None [simp]: "rust_assert P = None \<longleftrightarrow> \<not> P"
  by (simp add: rust_assert_def)

lemma rust_assert_bind_eq_Some [simp]:
  "(rust_assert P \<bind> f = Some x) \<longleftrightarrow> (P \<and> f () = Some x)"
  by (cases P) simp_all

lemma try_then_simps [simp]:
  "try_then (Inl e) f = Inl e" "try_then (Inr x) f = f x"
  by (simp_all add: try_then_def)

lemma try_then_eq_Inr: "try_then m f = Inr y \<longleftrightarrow> (\<exists>x. m = Inr x \<and> f x = Inr y)"
  by (cases m) simp_all

lemma try_panic_simps [simp]:
  "try_panic None f = None"
  "try_panic (Some (Inl e)) f = Some (Inl e)"
  "try_panic (Some (Inr x)) f = f x"
  by (simp_all add: try_panic_def)

lemma try_panic_eq_ok:
  "try_panic m f = Some (Inr y) \<longleftrightarrow> (\<exists>x. m = Some (Inr x) \<and> f x = Some (Inr y))"
  by (auto simp: try_panic_def split: option.splits sum.splits)

lemma try_panic_cong [fundef_cong]:
  "\<lbrakk>m = m'; \<And>x. m' = Some (Inr x) \<Longrightarrow> f x = g x\<rbrakk> \<Longrightarrow> try_panic m f = try_panic m' g"
  by (auto simp: try_panic_def split: option.splits sum.splits)

lemma ok_or_simps [simp]:
  "ok_or None e = Inl e" "ok_or (Some y) e = Inr y"
  by (simp_all add: ok_or_def)

lemma ok_or_eq_Inr [simp]: "ok_or x e = Inr y \<longleftrightarrow> x = Some y"
  by (cases x) simp_all

section \<open>Checked and saturating arithmetic\<close>

abbreviation u64_max :: nat where
  "u64_max \<equiv> 18446744073709551615"

lemma u64_max_eq: "u64_max = 2 ^ 64 - 1"
  by simp

definition checked_add_u64 :: "nat \<Rightarrow> nat \<Rightarrow> nat option" where
  [panic_defs]: "checked_add_u64 a b = (if a + b \<le> u64_max then Some (a + b) else None)"

definition checked_sub_u64 :: "nat \<Rightarrow> nat \<Rightarrow> nat option" where
  [panic_defs]: "checked_sub_u64 a b = (if b \<le> a then Some (a - b) else None)"

definition saturating_add_u64 :: "nat \<Rightarrow> nat \<Rightarrow> nat" where
  [panic_defs]: "saturating_add_u64 a b = min (a + b) u64_max"

lemma checked_add_u64_eq_Some [simp]:
  "checked_add_u64 a b = Some c \<longleftrightarrow> c = a + b \<and> a + b \<le> u64_max"
  by (auto simp: checked_add_u64_def)

lemma checked_sub_u64_eq_Some [simp]:
  "checked_sub_u64 a b = Some c \<longleftrightarrow> b \<le> a \<and> c = a - b"
  by (auto simp: checked_sub_u64_def)

definition checked_add_word :: "'w::len word \<Rightarrow> 'w word \<Rightarrow> 'w word option" where
  [panic_defs]:
  "checked_add_word a b = (if unat a + unat b < 2 ^ LENGTH('w) then Some (a + b) else None)"

definition checked_sub_word :: "'w::len word \<Rightarrow> 'w word \<Rightarrow> 'w word option" where
  [panic_defs]: "checked_sub_word a b = (if b \<le> a then Some (a - b) else None)"

definition saturating_add_word :: "'w::len word \<Rightarrow> 'w word \<Rightarrow> 'w word" where
  [panic_defs]:
  "saturating_add_word a b = (if unat a + unat b < 2 ^ LENGTH('w) then a + b else - 1)"

definition saturating_sub_word :: "'w::len word \<Rightarrow> 'w word \<Rightarrow> 'w word" where
  [panic_defs]: "saturating_sub_word a b = (if b \<le> a then a - b else 0)"

lemma checked_add_word_eq_Some:
  fixes a b c :: "'w::len word"
  shows "checked_add_word a b = Some c \<longleftrightarrow>
    unat a + unat b < 2 ^ LENGTH('w) \<and> unat c = unat a + unat b"
  by (auto simp: checked_add_word_def unat_word_ariths word_unat_eq_iff)

lemma unat_saturating_add:
  fixes a b :: "'w::len word"
  shows "unat (saturating_add_word a b) = min (unat a + unat b) (2 ^ LENGTH('w) - 1)"
  by (auto simp: saturating_add_word_def unat_word_ariths unsigned_minus_1_eq_mask mask_eq_exp_minus_1)

lemma unat_saturating_sub: "unat (saturating_sub_word a b) = unat a - unat b"
  by (auto simp: saturating_sub_word_def word_le_nat_alt unat_sub)

section \<open>Finite maps: the BTreeMap and HashMap of the source\<close>

definition bt_wf :: "('k::linorder \<times> 'v) list \<Rightarrow> bool" where
  "bt_wf m \<longleftrightarrow> sorted_wrt (<) (map fst m)"

fun bt_insert :: "'k::linorder \<Rightarrow> 'v \<Rightarrow> ('k \<times> 'v) list \<Rightarrow> ('k \<times> 'v) list" where
  "bt_insert k v [] = [(k, v)]"
| "bt_insert k v ((k', v') # m) =
     (if k < k' then (k, v) # (k', v') # m
      else if k = k' then (k, v) # m
      else (k', v') # bt_insert k v m)"

definition bt_remove :: "'k \<Rightarrow> ('k \<times> 'v) list \<Rightarrow> ('k \<times> 'v) list" where
  "bt_remove k m = filter (\<lambda>(k', _). k' \<noteq> k) m"

definition bt_retain :: "('k \<Rightarrow> 'v \<Rightarrow> bool) \<Rightarrow> ('k \<times> 'v) list \<Rightarrow> ('k \<times> 'v) list" where
  "bt_retain P m = filter (\<lambda>(k, v). P k v) m"

definition hm_wf :: "('k \<times> 'v) list \<Rightarrow> bool" where
  "hm_wf m \<longleftrightarrow> distinct (map fst m)"

text \<open>\<open>entry(k).or_default()\<close>: the value stored at \<open>k\<close>, or the default.\<close>

definition get_or :: "'v \<Rightarrow> ('k \<times> 'v) list \<Rightarrow> 'k \<Rightarrow> 'v" where
  "get_or d m k = (case map_of m k of None \<Rightarrow> d | Some v \<Rightarrow> v)"

lemma bt_wf_Nil [simp]: "bt_wf []"
  by (simp add: bt_wf_def)

lemma bt_wf_Cons:
  "bt_wf ((k, v) # m) \<longleftrightarrow> (\<forall>k' \<in> fst ` set m. k < k') \<and> bt_wf m"
  by (auto simp: bt_wf_def)

lemma bt_wf_distinct: "bt_wf m \<Longrightarrow> distinct (map fst m)"
  unfolding bt_wf_def by (simp add: strict_sorted_iff)

lemma bt_insert_keys [simp]: "fst ` set (bt_insert k v m) = insert k (fst ` set m)"
  by (induction k v m rule: bt_insert.induct) auto

lemma bt_wf_insert [simp]: "bt_wf m \<Longrightarrow> bt_wf (bt_insert k v m)"
  by (induction k v m rule: bt_insert.induct) (auto simp: bt_wf_Cons)

lemma map_of_bt_insert [simp]: "bt_wf m \<Longrightarrow> map_of (bt_insert k v m) = (map_of m)(k \<mapsto> v)"
proof (induction k v m rule: bt_insert.induct)
  case (2 k v k' v' m)
  then show ?case
    by (auto simp: bt_wf_Cons fun_eq_iff map_of_eq_None_iff)
qed simp

lemma bt_wf_filter [simp]: "bt_wf m \<Longrightarrow> bt_wf (filter P m)"
  unfolding bt_wf_def
  by (induction m) (auto simp: sorted_wrt_map)

lemma bt_wf_remove [simp]: "bt_wf m \<Longrightarrow> bt_wf (bt_remove k m)"
  by (simp add: bt_remove_def)

lemma bt_wf_retain [simp]: "bt_wf m \<Longrightarrow> bt_wf (bt_retain P m)"
  by (simp add: bt_retain_def)

lemma map_of_bt_remove [simp]: "map_of (bt_remove k m) = (map_of m)(k := None)"
  by (induction m) (auto simp: bt_remove_def fun_eq_iff)

lemma map_of_bt_retain:
  "distinct (map fst m) \<Longrightarrow>
   map_of (bt_retain P m) k = (case map_of m k of None \<Rightarrow> None | Some v \<Rightarrow> if P k v then Some v else None)"
  by (induction m) (auto simp: bt_retain_def map_of_eq_None_iff image_iff split: option.splits
      dest: map_of_SomeD)

lemma bt_retain_keys: "fst ` set (bt_retain P m) \<subseteq> fst ` set m"
  by (auto simp: bt_retain_def)

lemma set_map_of: "bt_wf m \<Longrightarrow> (k, v) \<in> set m \<longleftrightarrow> map_of m k = Some v"
  by (auto dest: bt_wf_distinct map_of_SomeD)

lemma in_set_update: "x \<in> set (AList.update k v m) \<Longrightarrow> x = (k, v) \<or> x \<in> set m"
  by (induction m) (auto split: if_splits)

lemma bt_wf_functional: "bt_wf m \<Longrightarrow> (k, v) \<in> set m \<Longrightarrow> (k, v') \<in> set m \<Longrightarrow> v = v'"
  by (simp add: set_map_of)

lemma get_or_cases: "get_or d m k = d \<or> (k, get_or d m k) \<in> set m"
  by (auto simp: get_or_def split: option.splits dest: map_of_SomeD)

lemma in_set_bt_insert: "x \<in> set (bt_insert k v m) \<Longrightarrow> x = (k, v) \<or> x \<in> set m"
  by (induction k v m rule: bt_insert.induct) (auto split: if_splits)

text \<open>
  The contract of a keyed map, as the components use it: what a lookup returns after an
  insertion or a removal. Both representations provide it.
\<close>

locale keyed_map =
  fixes wf :: "'m \<Rightarrow> bool"
    and get :: "'m \<Rightarrow> 'k \<Rightarrow> 'v option"
    and ins :: "'k \<Rightarrow> 'v \<Rightarrow> 'm \<Rightarrow> 'm"
    and del :: "'k \<Rightarrow> 'm \<Rightarrow> 'm"
  assumes wf_ins: "wf m \<Longrightarrow> wf (ins k v m)"
    and wf_del: "wf m \<Longrightarrow> wf (del k m)"
    and get_ins: "wf m \<Longrightarrow> get (ins k v m) = (get m)(k \<mapsto> v)"
    and get_del: "wf m \<Longrightarrow> get (del k m) = (get m)(k := None)"
begin

lemma wf_fold_ins: "wf m \<Longrightarrow> wf (fold (\<lambda>(k, v). ins k v) kvs m)"
  by (induction kvs arbitrary: m) (auto simp: wf_ins)

lemma get_fold_ins:
  "wf m \<Longrightarrow> get (fold (\<lambda>(k, v). ins k v) kvs m) = get m ++ map_of (rev kvs)"
  by (induction kvs arbitrary: m) (auto simp: wf_ins get_ins
      fun_eq_iff map_add_def split: option.splits)

lemma get_ins_del: "wf m \<Longrightarrow> get (ins k v (del k m)) = get (ins k v m)"
  by (simp add: get_ins get_del wf_del)

lemma get_del_ins: "wf m \<Longrightarrow> get m k = None \<Longrightarrow> get (del k (ins k v m)) = get m"
  by (auto simp: get_ins get_del wf_ins fun_eq_iff)

end

interpretation bt: keyed_map bt_wf map_of bt_insert bt_remove
  by unfold_locales simp_all

interpretation hm: keyed_map hm_wf map_of AList.update AList.delete
  by unfold_locales (simp_all add: hm_wf_def distinct_update distinct_delete update_conv' delete_conv')

end
