(* ===== verification/Primitives.thy ===== *)
theory Primitives
  imports Prelude
begin

text \<open>
  The newtypes of \<open>monad-types/src/lib.rs\<close>: rounds, epochs, sequence numbers and stakes, with
  the arithmetic the source gives them, round spans, and the epoch a sequence number lies in.
  Node identifiers and block identifiers are opaque byte strings; a natural number stands for
  the bytes read as a big-endian integer, which has the same equality and the same order.
\<close>

section \<open>Data\<close>

type_synonym round = nat
type_synonym epoch = nat
type_synonym seq_num = nat
type_synonym stake = "256 word"
type_synonym node_id = nat
type_synonym block_id = nat

definition GENESIS_ROUND :: round where
  "GENESIS_ROUND = 0"

definition GENESIS_SEQ_NUM :: seq_num where
  "GENESIS_SEQ_NUM = 0"

definition GENESIS_BLOCK_ID :: block_id where
  "GENESIS_BLOCK_ID = 0"

record round_span =
  rs_start :: round
  rs_end :: round

section \<open>Operations\<close>

text \<open>\<open>impl Add\<close> and \<open>impl Sub\<close> of the newtypes: checked, an overflow panics.\<close>

definition round_add :: "round \<Rightarrow> round \<Rightarrow> round panics" where
  [panic_defs]: "round_add a b = checked_add_u64 a b"

definition round_sub :: "round \<Rightarrow> round \<Rightarrow> round panics" where
  [panic_defs]: "round_sub a b = checked_sub_u64 a b"

definition epoch_add :: "epoch \<Rightarrow> epoch \<Rightarrow> epoch panics" where
  [panic_defs]: "epoch_add a b = checked_add_u64 a b"

definition seq_num_add :: "seq_num \<Rightarrow> seq_num \<Rightarrow> seq_num panics" where
  [panic_defs]: "seq_num_add a b = checked_add_u64 a b"

definition seq_num_sub :: "seq_num \<Rightarrow> seq_num \<Rightarrow> seq_num panics" where
  [panic_defs]: "seq_num_sub a b = checked_sub_u64 a b"

definition seq_num_rem :: "seq_num \<Rightarrow> seq_num \<Rightarrow> seq_num panics" where
  [panic_defs]: "seq_num_rem a b = (if b = 0 then None else Some (a mod b))"

definition seq_num_saturating_add :: "seq_num \<Rightarrow> seq_num \<Rightarrow> seq_num" where
  [panic_defs]: "seq_num_saturating_add a b = saturating_add_u64 a b"

definition stake_add :: "stake \<Rightarrow> stake \<Rightarrow> stake panics" where
  "stake_add a b = checked_add_word a b"

definition stake_sub :: "stake \<Rightarrow> stake \<Rightarrow> stake panics" where
  "stake_sub a b = checked_sub_word a b"

fun stake_sum_from :: "stake \<Rightarrow> stake list \<Rightarrow> stake panics" where
  "stake_sum_from acc [] = Some acc"
| "stake_sum_from acc (s # ss) = do { acc' \<leftarrow> stake_add acc s; stake_sum_from acc' ss }"

definition stake_sum :: "stake list \<Rightarrow> stake panics" where
  "stake_sum ss = stake_sum_from 0 ss"

definition round_span_new :: "round \<Rightarrow> round \<Rightarrow> round_span option" where
  "round_span_new s e = (if s \<ge> e then None else Some \<lparr>rs_start = s, rs_end = e\<rparr>)"

text \<open>The addition in \<open>single\<close> cannot overflow below \<open>Round::MAX\<close>; the outer option is its panic.\<close>

definition round_span_single :: "round \<Rightarrow> round_span option panics" where
  "round_span_single s =
     (if s \<ge> u64_max then Some None
      else do { e \<leftarrow> round_add s 1; Some (Some \<lparr>rs_start = s, rs_end = e\<rparr>) })"

definition round_span_contains :: "round_span \<Rightarrow> round \<Rightarrow> bool" where
  "round_span_contains sp r \<longleftrightarrow> rs_start sp \<le> r \<and> r < rs_end sp"

definition round_span_overlaps :: "round_span \<Rightarrow> round_span \<Rightarrow> bool" where
  "round_span_overlaps a b \<longleftrightarrow> rs_start a < rs_end b \<and> rs_start b < rs_end a"

text \<open>
  \<open>to_epoch\<close> uses the primitive \<open>/\<close> and \<open>+\<close> of \<open>u64\<close>: division by zero panics, the addition
  wraps in a release build.
\<close>

definition to_epoch :: "seq_num \<Rightarrow> seq_num \<Rightarrow> epoch panics" where
  "to_epoch s epoch_length =
     (if epoch_length = 0 then None else Some ((s div epoch_length + 1) mod 2 ^ 64))"

definition is_epoch_end :: "seq_num \<Rightarrow> seq_num \<Rightarrow> bool panics" where
  "is_epoch_end s epoch_length = do {
     r \<leftarrow> seq_num_rem s epoch_length;
     l \<leftarrow> seq_num_sub epoch_length 1;
     Some (r = l) }"

definition get_locked_epoch :: "seq_num \<Rightarrow> seq_num \<Rightarrow> epoch panics" where
  "get_locked_epoch s epoch_length = do {
     b \<leftarrow> is_epoch_end s epoch_length;
     rust_assert b;
     e \<leftarrow> to_epoch s epoch_length;
     epoch_add e 1 }"

section \<open>Lemmas\<close>

lemma round_add_eq_Some [simp]: "round_add a b = Some c \<longleftrightarrow> c = a + b \<and> a + b \<le> u64_max"
  by (simp add: round_add_def)

lemma round_sub_eq_Some [simp]: "round_sub a b = Some c \<longleftrightarrow> b \<le> a \<and> c = a - b"
  by (simp add: round_sub_def)

lemma seq_num_add_eq_Some [simp]: "seq_num_add a b = Some c \<longleftrightarrow> c = a + b \<and> a + b \<le> u64_max"
  by (simp add: seq_num_add_def)

lemma epoch_add_eq_Some [simp]: "epoch_add a b = Some c \<longleftrightarrow> c = a + b \<and> a + b \<le> u64_max"
  by (simp add: epoch_add_def)

lemma unat_stake_less: "unat (s :: stake) < 2 ^ 256"
  using unsigned_less [of s, where 'a = nat] by simp

lemma stake_add_eq_Some:
  "stake_add a b = Some c \<longleftrightarrow> unat a + unat b < 2 ^ 256 \<and> unat c = unat a + unat b"
  unfolding stake_add_def by (subst checked_add_word_eq_Some) simp

lemma stake_sum_from_eq_Some:
  "stake_sum_from acc ss = Some t \<longleftrightarrow>
     unat acc + sum_list (map unat ss) < 2 ^ 256 \<and> unat t = unat acc + sum_list (map unat ss)"
proof (induction ss arbitrary: acc)
  case Nil
  show ?case
    using unsigned_less [of acc] by (auto simp: word_unat_eq_iff)
next
  case (Cons s ss)
  show ?case
  proof (cases "stake_add acc s")
    case None
    then have "unat acc + unat s \<ge> 2 ^ 256"
      by (simp add: stake_add_def checked_add_word_def split: if_splits)
    then show ?thesis
      using None by simp
  next
    case (Some a)
    then have "unat a = unat acc + unat s"
      by (simp add: stake_add_eq_Some)
    then show ?thesis
      using Some Cons.IH [of a] by (simp add: ac_simps)
  qed
qed

text \<open>\<open>Stake::sum\<close> is the exact sum, and panics only when that does not fit 256 bits.\<close>

lemma stake_sum_eq_Some:
  "stake_sum ss = Some t \<longleftrightarrow>
     sum_list (map unat ss) < 2 ^ 256 \<and> unat t = sum_list (map unat ss)"
  unfolding stake_sum_def by (subst stake_sum_from_eq_Some) simp

lemma stake_sum_defined:
  assumes "sum_list (map unat ss) < 2 ^ 256"
  obtains t where "stake_sum ss = Some t" "unat t = sum_list (map unat ss)"
proof -
  have "unat (word_of_nat (sum_list (map unat ss)) :: stake) = sum_list (map unat ss)"
    using assms by (simp add: unat_of_nat take_bit_nat_eq_self)
  then show thesis
    using that assms stake_sum_eq_Some by blast
qed

lemma is_epoch_end_eq:
  "0 < l \<Longrightarrow> is_epoch_end s l = Some (s mod l = l - 1)"
  by (simp add: is_epoch_end_def seq_num_rem_def seq_num_sub_def checked_sub_u64_def)

lemma to_epoch_eq:
  assumes "0 < l" and "s < u64_max"
  shows "to_epoch s l = Some (s div l + 1)"
proof -
  have "s div l < u64_max"
    using div_le_dividend assms(2) by (rule le_less_trans)
  then show ?thesis
    using assms(1) by (simp add: to_epoch_def)
qed

text \<open>
  C40. The epochs partition the sequence numbers as the documentation of \<open>SeqNum::to_epoch\<close>
  says: for a positive epoch length the sequence numbers (below the last one) of epoch
  \<open>e\<close> are exactly \<open>[(e-1) * epoch_length, e * epoch_length - 1]\<close>.
\<close>

theorem to_epoch_partition:
  assumes "0 < l" and "s < u64_max"
  shows "to_epoch s l = Some e \<longleftrightarrow> 1 \<le> e \<and> (e - 1) * l \<le> s \<and> s < e * l"
proof -
  have "s div l + 1 = e \<longleftrightarrow> 1 \<le> e \<and> e - 1 \<le> s div l \<and> s div l < e"
    by auto
  also have "\<dots> \<longleftrightarrow> 1 \<le> e \<and> (e - 1) * l \<le> s \<and> s < e * l"
    using assms(1) by (simp only: less_eq_div_iff_mult_less_eq div_less_iff_less_mult)
  finally have "s div l + 1 = e \<longleftrightarrow> 1 \<le> e \<and> (e - 1) * l \<le> s \<and> s < e * l" .
  then show ?thesis
    using assms by (simp add: to_epoch_eq)
qed

lemma to_epoch_partition_witness:
  "to_epoch 9 5 = Some 2 \<longleftrightarrow> 1 \<le> (2::nat) \<and> (2 - 1) * 5 \<le> (9::nat) \<and> (9::nat) < 2 * 5"
  by (rule to_epoch_partition) simp_all

text \<open>
  C39. \<open>is_epoch_end\<close> marks the boundary block of an epoch: it holds of \<open>s\<close> exactly when the next
  sequence number is in the next epoch, and then \<open>get_locked_epoch\<close> does not panic and returns the
  epoch of the next sequence number.
\<close>

theorem epoch_end_boundary:
  assumes "0 < l" and "s + 1 < u64_max"
  shows "is_epoch_end s l = Some (to_epoch (s + 1) l \<noteq> to_epoch s l) \<and>
    (is_epoch_end s l = Some True \<longrightarrow> get_locked_epoch s l = to_epoch (s + 1) l)"
proof -
  have e: "s mod l = l - 1 \<longleftrightarrow> (s + 1) div l \<noteq> s div l"
    using assms(1) by (auto simp: div_Suc mod_Suc)
  have n: "s mod l = l - 1 \<Longrightarrow> (s + 1) div l = s div l + 1"
    using assms(1) by (auto simp: div_Suc mod_Suc)
  have "s div l \<le> 18446744073709551613"
    using div_le_dividend by (rule order_trans) (use assms(2) in simp)
  then show ?thesis
    using assms e n
    by (auto simp: is_epoch_end_eq to_epoch_eq get_locked_epoch_def epoch_add_def checked_add_u64_def)
qed

lemma epoch_end_boundary_witness:
  "is_epoch_end 9 5 = Some True \<and> get_locked_epoch 9 5 = Some 3"
  using epoch_end_boundary [of 5 9]
  by (simp add: is_epoch_end_eq to_epoch_eq)

lemma round_span_overlaps_iff:
  assumes "rs_start a < rs_end a" and "rs_start b < rs_end b"
  shows "round_span_overlaps a b \<longleftrightarrow> (\<exists>r. round_span_contains a r \<and> round_span_contains b r)"
proof
  assume "round_span_overlaps a b"
  then show "\<exists>r. round_span_contains a r \<and> round_span_contains b r"
    using assms
    by (intro exI [of _ "max (rs_start a) (rs_start b)"])
       (auto simp: round_span_overlaps_def round_span_contains_def)
qed (auto simp: round_span_overlaps_def round_span_contains_def)

end
