(* ===== verification/Validators.thy ===== *)
theory Validators
  imports Primitives
begin

text \<open>
  The validator set of \<open>monad-validator/src/validator_set.rs\<close>: its construction from a list of
  staked nodes, and the stake thresholds every certificate is checked against. The locale
  \<open>quorum_system\<close> is the contract the consensus components rely on; the validator set is
  shown to provide it.
\<close>

section \<open>Data\<close>

datatype vs_error = DuplicateValidator node_id

record validator_set =
  validators :: "(node_id \<times> stake) list"
  total_stake :: stake

section \<open>Operations\<close>

fun create_loop ::
  "(node_id \<times> stake) list \<Rightarrow> (node_id \<times> stake) list \<Rightarrow> stake \<Rightarrow> (vs_error + validator_set) panics"
where
  "create_loop [] vmap tot = Some (Inr \<lparr>validators = vmap, total_stake = tot\<rparr>)"
| "create_loop ((n, s) # rest) vmap tot =
     (if map_of vmap n \<noteq> None then Some (Inl (DuplicateValidator n))
      else do { tot' \<leftarrow> stake_add tot s; create_loop rest (bt_insert n s vmap) tot' })"

definition create :: "(node_id \<times> stake) list \<Rightarrow> (vs_error + validator_set) panics" where
  "create vals = create_loop vals [] 0"

definition is_member :: "validator_set \<Rightarrow> node_id \<Rightarrow> bool" where
  "is_member vs n \<longleftrightarrow> map_of (validators vs) n \<noteq> None"

text \<open>\<open>addrs.iter().duplicates().next()\<close>: the first element met for the second time.\<close>

fun first_duplicate :: "node_id set \<Rightarrow> node_id list \<Rightarrow> node_id option" where
  "first_duplicate seen [] = None"
| "first_duplicate seen (x # xs) =
     (if x \<in> seen then Some x else first_duplicate (insert x seen) xs)"

definition calculate_current_stake :: "validator_set \<Rightarrow> node_id list \<Rightarrow> (vs_error + stake) panics" where
  "calculate_current_stake vs addrs =
     (case first_duplicate {} addrs of
        Some n \<Rightarrow> Some (Inl (DuplicateValidator n))
      | None \<Rightarrow> do {
          s \<leftarrow> stake_sum (List.map_filter (map_of (validators vs)) addrs);
          Some (Inr s) })"

definition has_threshold_votes ::
  "validator_set \<Rightarrow> node_id list \<Rightarrow> stake \<Rightarrow> (vs_error + bool) panics" where
  "has_threshold_votes vs addrs threshold =
     try_panic (calculate_current_stake vs addrs) (\<lambda>voter_stake. Some (Inr (threshold \<le> voter_stake)))"

text \<open>The thresholds are computed with the operators of the 256-bit integer, which wrap.\<close>

definition has_super_majority_votes :: "validator_set \<Rightarrow> node_id list \<Rightarrow> (vs_error + bool) panics" where
  "has_super_majority_votes vs addrs = has_threshold_votes vs addrs (total_stake vs * 2 div 3 + 1)"

definition has_honest_vote :: "validator_set \<Rightarrow> node_id list \<Rightarrow> (vs_error + bool) panics" where
  "has_honest_vote vs addrs = has_threshold_votes vs addrs (total_stake vs div 3 + 1)"

section \<open>Specification\<close>

text \<open>The stake of a node (zero for a stranger) and of a set of nodes, as exact numbers.\<close>

definition node_stake :: "validator_set \<Rightarrow> node_id \<Rightarrow> nat" where
  "node_stake vs n = (case map_of (validators vs) n of None \<Rightarrow> 0 | Some s \<Rightarrow> unat s)"

definition set_stake :: "validator_set \<Rightarrow> node_id set \<Rightarrow> nat" where
  "set_stake vs A = (\<Sum>n \<in> A. node_stake vs n)"

definition vs_wf :: "validator_set \<Rightarrow> bool" where
  "vs_wf vs \<longleftrightarrow> bt_wf (validators vs) \<and>
     unat (total_stake vs) = sum_list (map (\<lambda>e. unat (snd e)) (validators vs))"

text \<open>No wrap-around in the computation of the threshold.\<close>

definition vs_safe :: "validator_set \<Rightarrow> bool" where
  "vs_safe vs \<longleftrightarrow> vs_wf vs \<and> unat (total_stake vs) < 2 ^ 255"

definition vs_tolerates :: "validator_set \<Rightarrow> node_id set \<Rightarrow> bool" where
  "vs_tolerates vs F \<longleftrightarrow> finite F \<and> 3 * set_stake vs F < unat (total_stake vs)"

definition is_quorum :: "validator_set \<Rightarrow> node_id list \<Rightarrow> bool" where
  "is_quorum vs addrs \<longleftrightarrow> has_super_majority_votes vs addrs = Some (Inr True)"

definition is_weak_quorum :: "validator_set \<Rightarrow> node_id list \<Rightarrow> bool" where
  "is_weak_quorum vs addrs \<longleftrightarrow> has_honest_vote vs addrs = Some (Inr True)"

section \<open>Stakes of sets\<close>

lemma first_duplicate_eq_None:
  "first_duplicate seen xs = None \<longleftrightarrow> distinct xs \<and> set xs \<inter> seen = {}"
  by (induction seen xs rule: first_duplicate.induct) auto

lemma sum_list_node_stake:
  "sum_list (map unat (List.map_filter (map_of (validators vs)) addrs)) =
   sum_list (map (node_stake vs) addrs)"
  by (induction addrs) (auto simp: List.map_filter_simps node_stake_def split: option.splits)

lemma sum_list_node_stake_distinct:
  "distinct addrs \<Longrightarrow> sum_list (map (node_stake vs) addrs) = set_stake vs (set addrs)"
  by (simp add: set_stake_def sum_list_distinct_conv_sum_set)

lemma total_stake_eq:
  assumes "vs_wf vs"
  shows "unat (total_stake vs) = set_stake vs (fst ` set (validators vs))"
proof -
  have d: "distinct (map fst (validators vs))"
    using assms by (simp add: vs_wf_def bt_wf_distinct)
  have "map (\<lambda>e. unat (snd e)) (validators vs) = map (\<lambda>e. node_stake vs (fst e)) (validators vs)"
    using d by (auto simp: node_stake_def)
  then have "unat (total_stake vs) = sum_list (map (node_stake vs) (map fst (validators vs)))"
    using assms by (simp add: vs_wf_def comp_def del: map_eq_conv)
  then show ?thesis
    using d by (simp add: sum_list_node_stake_distinct del: map_map)
qed

lemma set_stake_mono: "finite B \<Longrightarrow> A \<subseteq> B \<Longrightarrow> set_stake vs A \<le> set_stake vs B"
  by (simp add: set_stake_def sum_mono2)

lemma set_stake_members:
  assumes "finite A"
  shows "set_stake vs A = set_stake vs (A \<inter> fst ` set (validators vs))"
proof -
  have "node_stake vs n = 0" if "n \<in> A - fst ` set (validators vs)" for n
  proof -
    have "map_of (validators vs) n = None"
      using that by (simp add: map_of_eq_None_iff)
    then show ?thesis
      by (simp add: node_stake_def)
  qed
  then show ?thesis
    unfolding set_stake_def using assms by (intro sum.mono_neutral_right) auto
qed

lemma set_stake_le_total:
  assumes "vs_wf vs" and "finite A"
  shows "set_stake vs A \<le> unat (total_stake vs)"
  unfolding total_stake_eq [OF assms(1)] set_stake_members [OF assms(2), of vs]
  by (rule set_stake_mono) auto

lemma set_stake_Un_Int:
  assumes "finite A" and "finite B"
  shows "set_stake vs (A \<union> B) + set_stake vs (A \<inter> B) = set_stake vs A + set_stake vs B"
  using assms unfolding set_stake_def by (rule sum.union_inter)

lemma calculate_current_stake_distinct:
  assumes "vs_wf vs" and "distinct addrs"
  obtains s where "calculate_current_stake vs addrs = Some (Inr s)"
    and "unat s = set_stake vs (set addrs)"
proof -
  let ?l = "List.map_filter (map_of (validators vs)) addrs"
  have e: "sum_list (map unat ?l) = set_stake vs (set addrs)"
    using assms(2) by (simp add: sum_list_node_stake sum_list_node_stake_distinct)
  also have "\<dots> \<le> unat (total_stake vs)"
    using assms(1) by (simp add: set_stake_le_total)
  finally have "sum_list (map unat ?l) < 2 ^ 256"
    using unat_stake_less by (rule le_less_trans)
  then obtain s where "stake_sum ?l = Some s" "unat s = sum_list (map unat ?l)"
    by (rule stake_sum_defined)
  moreover have "first_duplicate {} addrs = None"
    using assms(2) by (simp add: first_duplicate_eq_None)
  ultimately show thesis
    using that [of s] e by (simp add: calculate_current_stake_def)
qed

lemma calculate_current_stake_duplicate:
  "\<not> distinct addrs \<Longrightarrow> \<exists>n. calculate_current_stake vs addrs = Some (Inl (DuplicateValidator n))"
  using first_duplicate_eq_None [of "{}" addrs]
  by (auto simp: calculate_current_stake_def)

lemma has_threshold_votes_iff:
  assumes "vs_wf vs"
  shows "has_threshold_votes vs addrs t = Some (Inr b) \<longleftrightarrow>
    distinct addrs \<and> b = (unat t \<le> set_stake vs (set addrs))"
proof (cases "distinct addrs")
  case True
  obtain s where "calculate_current_stake vs addrs = Some (Inr s)"
    and "unat s = set_stake vs (set addrs)"
    using calculate_current_stake_distinct [OF assms True] .
  then show ?thesis
    using True by (auto simp: has_threshold_votes_def word_le_nat_alt)
next
  case False
  then show ?thesis
    using calculate_current_stake_duplicate [OF False, of vs]
    by (auto simp: has_threshold_votes_def)
qed

lemma third_plus_one_less: "x < N \<Longrightarrow> 2 \<le> N \<Longrightarrow> x div 3 + 1 < (N :: nat)"
  by linarith

lemma quorum_threshold:
  assumes "vs_safe vs"
  shows "unat (total_stake vs * 2 div 3 + 1) = 2 * unat (total_stake vs) div 3 + 1"
proof -
  have lt: "2 * unat (total_stake vs) < 2 ^ 256"
    using assms by (simp add: vs_safe_def)
  then have m: "unat (total_stake vs * 2) = 2 * unat (total_stake vs)"
    by (simp add: unat_word_ariths)
  have "2 * unat (total_stake vs) div 3 + 1 < 2 ^ 256"
    using lt by (rule third_plus_one_less) simp
  then show ?thesis
    using m by (simp add: unat_word_ariths unat_div_distrib)
qed

lemma weak_threshold: "unat (total_stake vs div 3 + 1) = unat (total_stake vs) div 3 + 1"
proof -
  have "unat (total_stake vs) div 3 + 1 < 2 ^ 256"
    using unat_stake_less by (rule third_plus_one_less) simp
  then show ?thesis
    by (simp add: unat_word_ariths unat_div_distrib)
qed

text \<open>What the two thresholds mean as numbers.\<close>

lemma is_quorum_iff:
  assumes "vs_safe vs"
  shows "is_quorum vs addrs \<longleftrightarrow>
    distinct addrs \<and> 2 * unat (total_stake vs) < 3 * set_stake vs (set addrs)"
proof -
  have "vs_wf vs"
    using assms by (simp add: vs_safe_def)
  then show ?thesis
    unfolding is_quorum_def has_super_majority_votes_def
      has_threshold_votes_iff [OF \<open>vs_wf vs\<close>] quorum_threshold [OF assms]
    by auto
qed

lemma is_weak_quorum_iff:
  assumes "vs_wf vs"
  shows "is_weak_quorum vs addrs \<longleftrightarrow>
    distinct addrs \<and> unat (total_stake vs) < 3 * set_stake vs (set addrs)"
  unfolding is_weak_quorum_def has_honest_vote_def has_threshold_votes_iff [OF assms] weak_threshold
  by auto

lemma has_super_majority_votes_total:
  assumes "vs_wf vs" and "distinct addrs"
  shows "has_super_majority_votes vs addrs = Some (Inr (is_quorum vs addrs))"
proof -
  have "\<exists>b. has_super_majority_votes vs addrs = Some (Inr b)"
    unfolding has_super_majority_votes_def using has_threshold_votes_iff [OF assms(1)] assms(2) by blast
  then show ?thesis
    by (auto simp: is_quorum_def)
qed

lemma is_quorum_mono:
  assumes "vs_wf vs" and "is_quorum vs A" and "set A \<subseteq> set B" and "distinct B"
  shows "is_quorum vs B"
proof -
  have "set_stake vs (set A) \<le> set_stake vs (set B)"
    by (rule set_stake_mono) (simp_all add: assms(3))
  then show ?thesis
    using assms(2,4) unfolding is_quorum_def has_super_majority_votes_def
    by (simp add: has_threshold_votes_iff [OF assms(1)])
qed

section \<open>Construction\<close>

lemma bt_insert_sum_list:
  "map_of m k = None \<Longrightarrow> sum_list (map f (bt_insert k v m)) = f (k, v) + (sum_list (map f m) :: nat)"
  by (induction k v m rule: bt_insert.induct) (auto split: if_splits)

lemma set_bt_insert_new:
  "map_of m k = None \<Longrightarrow> set (bt_insert k v m) = insert (k, v) (set m)"
  by (induction k v m rule: bt_insert.induct) (auto split: if_splits)

lemma create_loop_ok:
  assumes "create_loop vals vmap tot = Some (Inr vs)"
    and "bt_wf vmap" and "unat tot = sum_list (map (\<lambda>e. unat (snd e)) vmap)"
  shows "vs_wf vs \<and> distinct (map fst vals) \<and> fst ` set vals \<inter> fst ` set vmap = {} \<and>
    set (validators vs) = set vals \<union> set vmap"
  using assms
proof (induction vals vmap tot rule: create_loop.induct)
  case (1 vmap tot)
  then show ?case
    by (auto simp: vs_wf_def)
next
  case (2 n s rest vmap tot)
  then have new: "map_of vmap n = None"
    by (auto split: if_splits)
  with 2(2) obtain tot' where t: "stake_add tot s = Some tot'"
    and r: "create_loop rest (bt_insert n s vmap) tot' = Some (Inr vs)"
    by (auto split: if_splits Option.bind_splits)
  have "unat tot' = sum_list (map (\<lambda>e. unat (snd e)) (bt_insert n s vmap))"
    using t new 2(4) by (simp add: stake_add_eq_Some bt_insert_sum_list)
  then have "vs_wf vs \<and> distinct (map fst rest) \<and>
      fst ` set rest \<inter> fst ` set (bt_insert n s vmap) = {} \<and>
      set (validators vs) = set rest \<union> set (bt_insert n s vmap)"
    using 2(1) [OF _ t r] new 2(3) by simp
  moreover have "n \<notin> fst ` set vmap"
    using new by (simp add: map_of_eq_None_iff)
  ultimately show ?case
    using new by (auto simp: set_bt_insert_new)
qed

lemma create_loop_err:
  assumes "create_loop vals vmap tot = Some (Inl (DuplicateValidator n))"
  shows "\<not> distinct (map fst vals) \<or> fst ` set vals \<inter> fst ` set vmap \<noteq> {}"
  using assms
proof (induction vals vmap tot rule: create_loop.induct)
  case (2 m s rest vmap tot)
  show ?case
  proof (cases "map_of vmap m")
    case None
    with 2(2) obtain tot' where t: "stake_add tot s = Some tot'"
      and r: "create_loop rest (bt_insert m s vmap) tot' = Some (Inl (DuplicateValidator n))"
      by (auto split: Option.bind_splits)
    show ?thesis
      using 2(1) [OF _ t r] None by (auto simp: set_bt_insert_new)
  next
    case (Some v)
    then have "m \<in> fst ` set vmap"
      by (force dest: map_of_SomeD)
    then show ?thesis
      by auto
  qed
qed simp

lemma create_loop_defined:
  assumes "unat tot + sum_list (map (\<lambda>e. unat (snd e)) vals) < 2 ^ 256"
  shows "create_loop vals vmap tot \<noteq> None"
  using assms
proof (induction vals vmap tot rule: create_loop.induct)
  case (2 n s rest vmap tot)
  have "stake_add tot s = Some (tot + s)" "unat (tot + s) = unat tot + unat s"
    using 2(2) by (simp_all add: stake_add_def checked_add_word_def unat_word_ariths)
  then show ?case
    using 2 by simp
qed simp

text \<open>
  C33. \<open>ValidatorSetFactory::create\<close>: on any list of stakes whose exact sum fits 256 bits it does not
  panic; it succeeds exactly when no node is listed twice, and then the set is well formed: its
  map holds exactly the listed entries in key order and its total stake is their exact sum.
\<close>

theorem create_correct:
  assumes "sum_list (map (\<lambda>e. unat (snd e)) vals) < 2 ^ 256"
  shows "if distinct (map fst vals)
    then (\<exists>vs. create vals = Some (Inr vs) \<and> vs_wf vs \<and> set (validators vs) = set vals)
    else (\<exists>n. create vals = Some (Inl (DuplicateValidator n)))"
proof -
  have d: "create vals \<noteq> None"
    unfolding create_def by (rule create_loop_defined) (use assms in simp)
  have ok: "vs_wf vs \<and> distinct (map fst vals) \<and> set (validators vs) = set vals"
    if "create vals = Some (Inr vs)" for vs
    using create_loop_ok [of vals "[]" 0 vs] that by (simp add: create_def)
  have err: "\<not> distinct (map fst vals)" if "create vals = Some (Inl (DuplicateValidator n))" for n
    using create_loop_err [of vals "[]" 0 n] that by (simp add: create_def)
  from d consider n where "create vals = Some (Inl (DuplicateValidator n))"
    | vs where "create vals = Some (Inr vs)"
    by (cases "create vals") (auto, metis sum.exhaust vs_error.exhaust)
  then show ?thesis
    by cases (use ok err in auto)
qed

theorem create_correct_witness:
  "\<exists>vs. create [(7, 5), (3, 10)] = Some (Inr vs) \<and> vs_wf vs \<and>
     set (validators vs) = {(3, 10), (7, 5)}"
  using create_correct [of "[(7, 5), (3, 10)]"] by (auto simp: insert_commute)

section \<open>Quorums\<close>

text \<open>
  What the consensus components rely on. A quorum and a weak quorum of signers are lists of
  nodes accepted by the validator set; \<open>tolerates v F\<close> says that the faulty nodes \<open>F\<close> are
  few enough.
\<close>

locale quorum_system =
  fixes safe :: "'v \<Rightarrow> bool"
    and quorum :: "'v \<Rightarrow> 'n list \<Rightarrow> bool"
    and weak :: "'v \<Rightarrow> 'n list \<Rightarrow> bool"
    and tolerates :: "'v \<Rightarrow> 'n set \<Rightarrow> bool"
  assumes quorum_meets: "\<lbrakk>safe v; tolerates v F; quorum v A; quorum v B\<rbrakk> \<Longrightarrow> \<exists>n. n \<in> set A \<inter> set B - F"
    and weak_honest: "\<lbrakk>safe v; tolerates v F; weak v A\<rbrakk> \<Longrightarrow> \<exists>n. n \<in> set A - F"
    and quorum_weak: "\<lbrakk>safe v; quorum v A\<rbrakk> \<Longrightarrow> weak v A"
begin

text \<open>If every correct node signs at most one value, two values signed by quorums are equal.\<close>

lemma quorum_value_unique:
  assumes "safe v" and "tolerates v F" and "quorum v A" and "quorum v B"
    and A: "\<forall>n \<in> set A. signs n x" and B: "\<forall>n \<in> set B. signs n y"
    and one: "\<And>n x y. \<lbrakk>n \<notin> F; signs n x; signs n y\<rbrakk> \<Longrightarrow> x = y"
  shows "x = y"
  using quorum_meets [OF assms(1-4)] A B one by blast

lemma quorum_honest:
  assumes "safe v" and "tolerates v F" and "quorum v A"
  shows "\<exists>n. n \<in> set A - F"
  using assms weak_honest quorum_weak by blast

lemma quorum_nonempty: "\<lbrakk>safe v; tolerates v F; quorum v A\<rbrakk> \<Longrightarrow> A \<noteq> []"
  using quorum_honest by fastforce

end

lemma quorum_intersection_stake:
  assumes "vs_safe vs" and "is_quorum vs A" and "is_quorum vs B"
  shows "unat (total_stake vs) < 3 * set_stake vs (set A \<inter> set B)"
proof -
  have "set_stake vs (set A \<union> set B) \<le> unat (total_stake vs)"
    using assms(1) by (simp add: set_stake_le_total vs_safe_def)
  then show ?thesis
    using assms set_stake_Un_Int [of "set A" "set B" vs] by (simp add: is_quorum_iff)
qed

lemma vs_tolerates_escape:
  assumes "vs_tolerates vs F" and "unat (total_stake vs) < 3 * set_stake vs A"
  shows "\<exists>n. n \<in> A - F"
proof (rule ccontr)
  assume "\<not> ?thesis"
  then have "set_stake vs A \<le> set_stake vs F"
    using assms(1) by (intro set_stake_mono) (auto simp: vs_tolerates_def)
  then show False
    using assms by (simp add: vs_tolerates_def)
qed

interpretation vq: quorum_system vs_safe is_quorum is_weak_quorum vs_tolerates
proof unfold_locales
  fix v F A B
  assume "vs_safe v" "vs_tolerates v F" "is_quorum v A" "is_quorum v B"
  then show "\<exists>n. n \<in> set A \<inter> set B - F"
    using quorum_intersection_stake vs_tolerates_escape by blast
next
  fix v F A
  assume "vs_safe v" "vs_tolerates v F" "is_weak_quorum v A"
  then show "\<exists>n. n \<in> set A - F"
    using vs_tolerates_escape by (simp add: is_weak_quorum_iff vs_safe_def)
next
  fix v A
  assume "vs_safe v" "is_quorum v A"
  then show "is_weak_quorum v A"
    by (simp add: is_weak_quorum_iff is_quorum_iff vs_safe_def)
qed

text \<open>
  C5. Quorum intersection: when the total stake is below \<open>2 ^ 255\<close>, any two lists of signers that
  \<open>has_super_majority_votes\<close> accepts share nodes holding more than a third of the total stake.
\<close>

theorem super_majorities_intersect:
  assumes "vs_safe vs"
    and "has_super_majority_votes vs A = Some (Inr True)"
    and "has_super_majority_votes vs B = Some (Inr True)"
  shows "unat (total_stake vs) < 3 * set_stake vs (set A \<inter> set B)"
  using quorum_intersection_stake assms unfolding is_quorum_def .

text \<open>
  C28. Liveness of the threshold: when less than a third of the stake is faulty, the remaining
  validators on their own are accepted by \<open>has_super_majority_votes\<close>.
\<close>

theorem honest_super_majority:
  assumes "vs_safe vs" and "vs_tolerates vs F"
  shows "has_super_majority_votes vs (filter (\<lambda>n. n \<notin> F) (map fst (validators vs))) = Some (Inr True)"
proof -
  let ?H = "filter (\<lambda>n. n \<notin> F) (map fst (validators vs))"
  have wf: "vs_wf vs"
    using assms(1) by (simp add: vs_safe_def)
  have "set_stake vs (set ?H \<union> F) = set_stake vs (set ?H) + set_stake vs F"
    unfolding set_stake_def by (rule sum.union_disjoint) (use assms(2) in \<open>auto simp: vs_tolerates_def\<close>)
  moreover have "unat (total_stake vs) \<le> set_stake vs (set ?H \<union> F)"
    unfolding total_stake_eq [OF wf]
    using assms(2) by (intro set_stake_mono) (auto simp: vs_tolerates_def)
  ultimately have "2 * unat (total_stake vs) < 3 * set_stake vs (set ?H)"
    using assms(2) by (simp add: vs_tolerates_def)
  moreover have "distinct ?H"
    using wf by (intro distinct_filter) (simp add: vs_wf_def bt_wf_distinct)
  ultimately have "is_quorum vs ?H"
    using assms(1) by (simp add: is_quorum_iff)
  then show ?thesis
    by (simp add: is_quorum_def)
qed

definition example_vs :: validator_set where
  "example_vs = \<lparr>validators = [(1, 10), (2, 10), (3, 10), (4, 10)], total_stake = 40\<rparr>"

lemma example_vs_safe: "vs_safe example_vs"
  by (simp add: example_vs_def vs_safe_def vs_wf_def bt_wf_def)

theorem super_majorities_intersect_witness:
  "40 < 3 * set_stake example_vs {2, 3}"
  using super_majorities_intersect [OF example_vs_safe, of "[1, 2, 3]" "[2, 3, 4]"]
  by (simp add: example_vs_def has_super_majority_votes_def has_threshold_votes_def
      calculate_current_stake_def List.map_filter_simps stake_sum_def stake_add_def checked_add_word_def)

theorem honest_super_majority_witness:
  "has_super_majority_votes example_vs [1, 2, 4] = Some (Inr True)"
proof -
  have "vs_tolerates example_vs {3}"
    by (simp add: vs_tolerates_def example_vs_def set_stake_def node_stake_def)
  from honest_super_majority [OF example_vs_safe this] show ?thesis
    by (simp add: example_vs_def)
qed

definition solo_vs :: validator_set where
  "solo_vs = \<lparr>validators = [(2, 10)], total_stake = 10\<rparr>"

lemma solo_vs_wf: "vs_wf solo_vs"
  by (simp add: solo_vs_def vs_wf_def bt_wf_def)

lemma solo_vs_safe: "vs_safe solo_vs"
  by (simp add: vs_safe_def solo_vs_wf) (simp add: solo_vs_def)

lemma solo_quorum: "is_quorum solo_vs [2]"
  by (simp add: is_quorum_def has_super_majority_votes_def has_threshold_votes_def solo_vs_def
      calculate_current_stake_def List.map_filter_simps stake_sum_def stake_add_def checked_add_word_def)

text \<open>
  The bound on the total stake is needed: with a total of \<open>2 ^ 255\<close> the product
  \<open>total_stake * 2\<close> wraps to zero, the threshold is one unit, and two disjoint signers with one
  unit of stake each are both accepted as super majorities.
\<close>

definition wrapping_vs :: validator_set where
  "wrapping_vs = \<lparr>validators = [(1, 1), (2, 1), (3, 2 ^ 255 - 2)], total_stake = 2 ^ 255\<rparr>"

theorem super_majority_wraps:
  "vs_wf wrapping_vs \<and> has_super_majority_votes wrapping_vs [1] = Some (Inr True) \<and>
   has_super_majority_votes wrapping_vs [2] = Some (Inr True)"
  by (simp add: wrapping_vs_def vs_wf_def bt_wf_def has_super_majority_votes_def
      has_threshold_votes_def calculate_current_stake_def List.map_filter_simps stake_sum_def
      stake_add_def checked_add_word_def)

end
