(* ===== verification/Epochs.thy ===== *)
theory Epochs
  imports Validators
begin

text \<open>
  Epochs and the validators of an epoch: \<open>EpochManager\<close> (\<open>monad-validator/src/epoch_manager.rs\<close>),
  which schedules and looks up the first round of each epoch, and \<open>ValidatorsEpochMapping\<close>
  (\<open>validators_epoch_mapping.rs\<close>), which holds the validator set and the certificate keys of
  each epoch.
\<close>

section \<open>Data\<close>

record epoch_manager =
  epoch_length :: seq_num
  epoch_start_delay :: round
  epoch_starts :: "(epoch \<times> round) list"

text \<open>\<open>ValidatorMapping\<close>: node to certificate public key (opaque bytes).\<close>

type_synonym cert_pubkey = nat
type_synonym validator_mapping = "(node_id \<times> cert_pubkey) list"
type_synonym validators_epoch_mapping = "(epoch \<times> validator_set \<times> validator_mapping) list"

section \<open>Operations\<close>

definition insert_epoch_start :: "epoch_manager \<Rightarrow> epoch \<Rightarrow> round \<Rightarrow> epoch_manager panics" where
  "insert_epoch_start em e r =
     (case map_of (epoch_starts em) e of
        None \<Rightarrow> Some (em\<lparr>epoch_starts := bt_insert e r (epoch_starts em)\<rparr>)
      | Some r' \<Rightarrow> do { rust_assert (r' = r); Some em })"

fun insert_epoch_starts :: "epoch_manager \<Rightarrow> (epoch \<times> round) list \<Rightarrow> epoch_manager panics" where
  "insert_epoch_starts em [] = Some em"
| "insert_epoch_starts em ((e, r) # known) =
     do { em' \<leftarrow> insert_epoch_start em e r; insert_epoch_starts em' known }"

definition epoch_manager_new ::
  "seq_num \<Rightarrow> round \<Rightarrow> (epoch \<times> round) list \<Rightarrow> epoch_manager panics" where
  "epoch_manager_new len delay known =
     insert_epoch_starts \<lparr>epoch_length = len, epoch_start_delay = delay, epoch_starts = []\<rparr> known"

definition schedule_epoch_start :: "epoch_manager \<Rightarrow> seq_num \<Rightarrow> round \<Rightarrow> epoch_manager panics" where
  "schedule_epoch_start em block_num block_round = do {
     b \<leftarrow> is_epoch_end block_num (epoch_length em);
     if b then do {
       e \<leftarrow> to_epoch block_num (epoch_length em);
       next_epoch \<leftarrow> epoch_add e 1;
       epoch_start_round \<leftarrow> round_add block_round (epoch_start_delay em);
       insert_epoch_start em next_epoch epoch_start_round }
     else Some em }"

definition get_epoch :: "epoch_manager \<Rightarrow> round \<Rightarrow> epoch option" where
  "get_epoch em r = map_option fst (find (\<lambda>(_, start). start \<le> r) (rev (epoch_starts em)))"

definition validator_mapping_new :: "(node_id \<times> cert_pubkey) list \<Rightarrow> validator_mapping" where
  "validator_mapping_new kvs = fold (\<lambda>(k, v). bt_insert k v) kvs []"

definition get_val_set :: "validators_epoch_mapping \<Rightarrow> epoch \<Rightarrow> validator_set option" where
  "get_val_set vem e = map_option fst (map_of vem e)"

definition get_cert_pubkeys :: "validators_epoch_mapping \<Rightarrow> epoch \<Rightarrow> validator_mapping option" where
  "get_cert_pubkeys vem e = map_option snd (map_of vem e)"

definition vem_insert ::
  "validators_epoch_mapping \<Rightarrow> epoch \<Rightarrow> (node_id \<times> stake) list \<Rightarrow> validator_mapping \<Rightarrow>
   validators_epoch_mapping panics" where
  "vem_insert vem e val_stakes val_cert_pubkeys = do {
     created \<leftarrow> create val_stakes;
     val_set \<leftarrow> (case created of Inl _ \<Rightarrow> None | Inr vs \<Rightarrow> Some vs);
     (case map_of vem e of
        None \<Rightarrow> Some (AList.update e (val_set, val_cert_pubkeys) vem)
      | Some (vs', keys') \<Rightarrow> do {
          rust_assert (validators vs' = validators val_set);
          rust_assert (keys' = val_cert_pubkeys);
          Some vem }) }"

section \<open>Invariants\<close>

definition em_wf :: "epoch_manager \<Rightarrow> bool" where
  "em_wf em \<longleftrightarrow> bt_wf (epoch_starts em)"

text \<open>Later epochs start in later rounds.\<close>

definition em_ordered :: "epoch_manager \<Rightarrow> bool" where
  "em_ordered em \<longleftrightarrow> (\<forall>(e, r) \<in> set (epoch_starts em). \<forall>(e', r') \<in> set (epoch_starts em). e < e' \<longrightarrow> r < r')"

definition vem_wf :: "validators_epoch_mapping \<Rightarrow> bool" where
  "vem_wf vem \<longleftrightarrow> hm_wf vem \<and> (\<forall>(e, vs, keys) \<in> set vem. vs_wf vs)"

section \<open>Epoch manager\<close>

lemma insert_epoch_start_cases:
  assumes "insert_epoch_start em e r = Some em'"
  shows "map_of (epoch_starts em) e = Some r \<and> em' = em \<or>
    map_of (epoch_starts em) e = None \<and> em' = em\<lparr>epoch_starts := bt_insert e r (epoch_starts em)\<rparr>"
  using assms by (auto simp: insert_epoch_start_def split: option.splits)

lemma insert_epoch_start_wf: "em_wf em \<Longrightarrow> insert_epoch_start em e r = Some em' \<Longrightarrow> em_wf em'"
  by (auto dest!: insert_epoch_start_cases simp: em_wf_def)

lemma insert_epoch_start_map:
  "em_wf em \<Longrightarrow> insert_epoch_start em e r = Some em' \<Longrightarrow>
   map_of (epoch_starts em') = (map_of (epoch_starts em))(e \<mapsto> r)"
  by (auto dest!: insert_epoch_start_cases simp: em_wf_def)

lemma find_rev_Max:
  assumes "bt_wf m"
  shows "map_option fst (find (\<lambda>(_, start). start \<le> r) (rev m)) =
    (if \<exists>(e, s) \<in> set m. s \<le> r then Some (Max {e. \<exists>s. (e, s) \<in> set m \<and> s \<le> r}) else None)"
  using assms
proof (induction m rule: rev_induct)
  case (snoc x m)
  obtain e s where x: "x = (e, s)"
    by (cases x)
  have less: "e' < e" if "(e', s') \<in> set m" for e' s'
    using snoc.prems that unfolding x bt_wf_def by (auto simp: sorted_wrt_append)
  have wf: "bt_wf m"
    using snoc.prems unfolding bt_wf_def by (simp add: sorted_wrt_append)
  show ?case
  proof (cases "s \<le> r")
    case True
    have fin: "finite {e'. \<exists>s'. (e', s') \<in> set (m @ [x]) \<and> s' \<le> r}"
      by (rule finite_subset [of _ "fst ` set (m @ [x])"]) force+
    have "Max {e'. \<exists>s'. (e', s') \<in> set (m @ [x]) \<and> s' \<le> r} = e"
      using fin True less by (intro Max_eqI) (auto simp: x intro: less_imp_le)
    then show ?thesis
      using True x by auto
  next
    case False
    then have "{e'. \<exists>s'. (e', s') \<in> set (m @ [x]) \<and> s' \<le> r} = {e'. \<exists>s'. (e', s') \<in> set m \<and> s' \<le> r}"
      using x by auto
    then show ?thesis
      using False x snoc.IH [OF wf] by auto
  qed
qed simp

text \<open>\<open>get_epoch\<close> returns the highest epoch already started.\<close>

lemma get_epoch_eq_Max:
  assumes "em_wf em"
  shows "get_epoch em r =
    (if \<exists>(e, s) \<in> set (epoch_starts em). s \<le> r
     then Some (Max {e. \<exists>s. (e, s) \<in> set (epoch_starts em) \<and> s \<le> r}) else None)"
  using find_rev_Max [of "epoch_starts em" r] assms by (simp add: get_epoch_def em_wf_def)

lemma started_finite: "finite {e. \<exists>s. (e, s) \<in> set m \<and> s \<le> (r :: round)}"
  by (rule finite_subset [of _ "fst ` set m"]) force+

lemma get_epoch_SomeI:
  assumes "em_wf em" and "(e, s) \<in> set (epoch_starts em)" and "s \<le> r"
    and "\<And>e' s'. (e', s') \<in> set (epoch_starts em) \<Longrightarrow> s' \<le> r \<Longrightarrow> e' \<le> e"
  shows "get_epoch em r = Some e"
proof -
  have "Max {e. \<exists>s. (e, s) \<in> set (epoch_starts em) \<and> s \<le> r} = e"
    by (rule Max_eqI) (use started_finite assms in auto)
  then show ?thesis
    using assms(1-3) by (auto simp: get_epoch_eq_Max)
qed

lemma get_epoch_SomeD:
  assumes "em_wf em" and "get_epoch em r = Some e"
  shows "\<exists>s. (e, s) \<in> set (epoch_starts em) \<and> s \<le> r"
    and "(e', s') \<in> set (epoch_starts em) \<Longrightarrow> s' \<le> r \<Longrightarrow> e' \<le> e"
proof -
  let ?S = "{e. \<exists>s. (e, s) \<in> set (epoch_starts em) \<and> s \<le> r}"
  have e: "e = Max ?S" and ne: "?S \<noteq> {}"
    using assms by (auto simp: get_epoch_eq_Max split: if_splits)
  show "\<exists>s. (e, s) \<in> set (epoch_starts em) \<and> s \<le> r"
    using Max_in [OF started_finite ne] e by simp
  show "(e', s') \<in> set (epoch_starts em) \<Longrightarrow> s' \<le> r \<Longrightarrow> e' \<le> e"
    using Max_ge [OF started_finite] e by blast
qed

lemma get_epoch_mono:
  assumes "em_wf em" and "r \<le> r'" and "get_epoch em r = Some e"
  shows "\<exists>e'. get_epoch em r' = Some e' \<and> e \<le> e'"
proof -
  obtain s where s: "(e, s) \<in> set (epoch_starts em)" "s \<le> r"
    using get_epoch_SomeD(1) [OF assms(1,3)] by blast
  then have "\<exists>(e, s) \<in> set (epoch_starts em). s \<le> r'"
    using assms(2) by (intro bexI [of _ "(e, s)"]) auto
  then obtain e' where e': "get_epoch em r' = Some e'"
    using assms(1) by (simp add: get_epoch_eq_Max)
  then show ?thesis
    using get_epoch_SomeD(2) [OF assms(1) e'] s assms(2) by force
qed

lemma schedule_epoch_start_boundary:
  assumes "is_epoch_end b (epoch_length em) = Some True" and "b < u64_max"
  shows "schedule_epoch_start em b r =
    (if b div epoch_length em + 2 \<le> u64_max \<and> r + epoch_start_delay em \<le> u64_max
     then insert_epoch_start em (b div epoch_length em + 2) (r + epoch_start_delay em) else None)"
proof -
  have "0 < epoch_length em"
    using assms(1) by (cases "epoch_length em") (auto simp: is_epoch_end_def seq_num_rem_def)
  then show ?thesis
    using assms
    by (auto simp: schedule_epoch_start_def to_epoch_eq epoch_add_def round_add_def checked_add_u64_def)
qed

lemma schedule_epoch_start_wf:
  assumes "em_wf em" and "schedule_epoch_start em b r = Some em'"
  shows "em_wf em'"
  using assms by (auto simp: schedule_epoch_start_def insert_epoch_start_wf
      split: Option.bind_splits if_splits)

text \<open>
  C29. Scheduling the next epoch at the commit of a boundary block \<open>b\<close> (the last of its epoch) at
  round \<open>r\<close>, when it is not scheduled yet: a round before \<open>r + epoch_start_delay\<close> keeps its
  epoch; from that round on, and as long as no later epoch is scheduled, the epoch is the one after
  the epoch of \<open>b\<close>; committing the same block again changes nothing; and committing the
  same block number at another round panics.
\<close>

theorem schedule_epoch_start_correct:
  assumes "em_wf em" and "is_epoch_end b (epoch_length em) = Some True" and "b < u64_max"
    and "map_of (epoch_starts em) (b div epoch_length em + 2) = None"
    and "schedule_epoch_start em b r = Some em'"
  shows "(\<forall>q < r + epoch_start_delay em. get_epoch em' q = get_epoch em q) \<and>
    ((\<forall>e \<in> fst ` set (epoch_starts em). e \<le> b div epoch_length em + 2) \<longrightarrow>
      (\<forall>q \<ge> r + epoch_start_delay em. get_epoch em' q = Some (b div epoch_length em + 2))) \<and>
    schedule_epoch_start em' b r = Some em' \<and>
    (\<forall>r'. r' \<noteq> r \<longrightarrow> schedule_epoch_start em' b r' = None)"
proof -
  let ?e = "b div epoch_length em + 2" and ?s = "r + epoch_start_delay em"
  have em': "em' = em\<lparr>epoch_starts := bt_insert ?e ?s (epoch_starts em)\<rparr>"
    and fits: "?e \<le> u64_max" "?s \<le> u64_max"
    using assms(4,5) unfolding schedule_epoch_start_boundary [OF assms(2,3)]
    by (auto simp: insert_epoch_start_def split: if_splits)
  have wf': "em_wf em'"
    using assms(1,5) by (rule schedule_epoch_start_wf)
  have set': "set (epoch_starts em') = insert (?e, ?s) (set (epoch_starts em))"
    using assms(4) by (simp add: em' set_bt_insert_new)
  have keep: "get_epoch em' q = get_epoch em q" if "q < ?s" for q
  proof -
    have "{e. \<exists>s. (e, s) \<in> set (epoch_starts em') \<and> s \<le> q} =
        {e. \<exists>s. (e, s) \<in> set (epoch_starts em) \<and> s \<le> q}"
      using that set' by auto
    then show ?thesis
      using that assms(1) wf' set' by (auto simp: get_epoch_eq_Max)
  qed
  have new: "get_epoch em' q = Some ?e"
    if "\<forall>e \<in> fst ` set (epoch_starts em). e \<le> ?e" "?s \<le> q" for q
    using wf' set' that by (intro get_epoch_SomeI [where s = ?s]) force+
  have len: "epoch_length em' = epoch_length em" "epoch_start_delay em' = epoch_start_delay em"
    by (simp_all add: em')
  have m: "map_of (epoch_starts em') ?e = Some ?s"
    using assms(1) by (simp add: em' em_wf_def)
  have again: "schedule_epoch_start em' b r = Some em'"
    using schedule_epoch_start_boundary [of b em' r] assms(2,3) fits m
    by (simp add: len insert_epoch_start_def)
  have other: "schedule_epoch_start em' b r' = None" if "r' \<noteq> r" for r'
    using schedule_epoch_start_boundary [of b em' r'] assms(2,3) m that
    by (auto simp: len insert_epoch_start_def)
  show ?thesis
    by (intro conjI allI impI) (erule keep, erule (1) new, rule again, erule other)
qed

definition example_em :: epoch_manager where
  "example_em = \<lparr>epoch_length = 100, epoch_start_delay = 20, epoch_starts = [(1, 0)]\<rparr>"

lemma example_em_schedule:
  "schedule_epoch_start example_em 99 130 = Some (example_em\<lparr>epoch_starts := [(1, 0), (2, 150)]\<rparr>)"
  by (simp add: example_em_def schedule_epoch_start_def is_epoch_end_eq to_epoch_def epoch_add_def
      round_add_def checked_add_u64_def insert_epoch_start_def)

theorem schedule_epoch_start_correct_witness:
  "get_epoch (example_em\<lparr>epoch_starts := [(1, 0), (2, 150)]\<rparr>) 149 = get_epoch example_em 149 \<and>
   get_epoch (example_em\<lparr>epoch_starts := [(1, 0), (2, 150)]\<rparr>) 150 = Some 2"
proof -
  have wf: "em_wf example_em"
    by (simp add: example_em_def em_wf_def bt_wf_def)
  have e: "is_epoch_end 99 (epoch_length example_em) = Some True"
    by (simp add: example_em_def is_epoch_end_eq)
  have n: "99 div epoch_length example_em + 2 = 2" "130 + epoch_start_delay example_em = 150"
    by (simp_all add: example_em_def)
  have f: "map_of (epoch_starts example_em) (99 div epoch_length example_em + 2) = None"
    by (simp add: example_em_def)
  have l: "\<forall>e \<in> fst ` set (epoch_starts example_em). e \<le> 2"
    by (simp add: example_em_def)
  show ?thesis
    using schedule_epoch_start_correct [OF wf e _ f example_em_schedule] l unfolding n by simp
qed

section \<open>Validators of an epoch\<close>

lemma create_SomeD:
  assumes "create vals = Some (Inr vs)"
  shows "vs_wf vs" and "distinct (map fst vals)" and "set (validators vs) = set vals"
  using create_loop_ok [of vals "[]" 0 vs] assms by (simp_all add: create_def)

lemma vem_insert_wf:
  assumes "vem_wf vem" and "vem_insert vem e vals keys = Some vem'"
  shows "vem_wf vem'"
proof -
  obtain vs where c: "create vals = Some (Inr vs)"
    and r: "vem' = vem \<or> map_of vem e = None \<and> vem' = AList.update e (vs, keys) vem"
    using assms(2) by (auto simp: vem_insert_def split: Option.bind_splits option.splits sum.splits)
  then show ?thesis
    using assms(1) create_SomeD(1) [OF c]
    by (auto simp: vem_wf_def hm.wf_ins dest!: in_set_update)
qed



end
