(* ===== verification/Leaders.thy ===== *)
theory Leaders
  imports Epochs
begin

text \<open>
  Leader election: \<open>WeightedRoundRobin\<close> (\<open>monad-validator/src/weighted_round_robin.rs\<close>) and
  \<open>SimpleRoundRobin\<close> (\<open>simple_round_robin.rs\<close>). The generator seeded with the round number is
  outside the repository; \<open>randomize\<close> is a parameter of which only its documented range is used,
  and the generator of 256-bit numbers is the sequence of the numbers it returns.
\<close>

section \<open>Operations\<close>

text \<open>The partial sums of the positive stakes; a stake or a sum above \<open>u64::MAX\<close> panics.\<close>

fun stake_bounds_u64 :: "nat \<Rightarrow> (node_id \<times> stake) list \<Rightarrow> ((node_id \<times> nat) list \<times> nat) panics" where
  "stake_bounds_u64 tot [] = Some ([], tot)"
| "stake_bounds_u64 tot ((n, s) # vals) =
     (if unat s > u64_max then None
      else if unat s > 0 then do {
        tot' \<leftarrow> checked_add_u64 tot (unat s);
        (bounds, t) \<leftarrow> stake_bounds_u64 tot' vals;
        Some ((n, tot') # bounds, t) }
      else stake_bounds_u64 tot vals)"

text \<open>The 256-bit variant adds with the wrapping operator.\<close>

fun stake_bounds_u256 :: "stake \<Rightarrow> (node_id \<times> stake) list \<Rightarrow> (node_id \<times> stake) list \<times> stake" where
  "stake_bounds_u256 tot [] = ([], tot)"
| "stake_bounds_u256 tot ((n, s) # vals) =
     (if s > 0 then
        (let (bounds, t) = stake_bounds_u256 (tot + s) vals in ((n, tot + s) # bounds, t))
      else stake_bounds_u256 tot vals)"

text \<open>
  \<open>slice::binary_search_by\<close> with a comparator that is never \<open>Equal\<close>: the index \<open>Err\<close> carries,
  found by halving the range \<open>[lo, hi)\<close>. \<open>below x\<close> says that the comparator gives \<open>Less\<close> on \<open>x\<close>.
\<close>

function bsearch :: "('a \<Rightarrow> bool) \<Rightarrow> 'a list \<Rightarrow> nat \<Rightarrow> nat \<Rightarrow> nat" where
  "bsearch below xs lo hi =
     (if lo < hi then
        (let mid = lo + (hi - lo) div 2
         in if below (xs ! mid) then bsearch below xs (mid + 1) hi else bsearch below xs lo mid)
      else lo)"
  by pat_completeness auto
termination
  by (relation "measure (\<lambda>(_, _, lo, hi). hi - lo)") auto

declare bsearch.simps [simp del]

definition pick_by_bound :: "(node_id \<times> 'i::linorder) list \<Rightarrow> 'i \<Rightarrow> node_id panics" where
  "pick_by_bound bounds idx =
     (let upper = bsearch (\<lambda>(_, b). \<not> b > idx) bounds 0 (length bounds)
      in if upper < length bounds then Some (fst (bounds ! upper)) else None)"

definition generate_random_validator_u64 ::
  "(nat \<Rightarrow> nat \<Rightarrow> nat) \<Rightarrow> round \<Rightarrow> (node_id \<times> stake) list \<Rightarrow> node_id panics" where
  "generate_random_validator_u64 randomize r vals = do {
     (bounds, tot) \<leftarrow> stake_bounds_u64 0 vals;
     rust_assert (bounds \<noteq> []);
     pick_by_bound bounds (randomize r tot) }"

definition generate_random_validator_with_randomizer ::
  "(node_id \<times> stake) list \<Rightarrow> (stake \<Rightarrow> stake) \<Rightarrow> node_id panics" where
  "generate_random_validator_with_randomizer vals randomize_from_total_stake =
     (let (bounds, tot) = stake_bounds_u256 0 vals
      in do {
        rust_assert (bounds \<noteq> []);
        pick_by_bound bounds (randomize_from_total_stake tot) })"

text \<open>\<open>max\<close> of \<open>randomize_256_with_rng\<close>: \<open>U256::MAX - (U256::MAX - m + 1) % m\<close>.\<close>

definition randomize_256_max :: "stake \<Rightarrow> stake" where
  "randomize_256_max m = - 1 - (- 1 - m + 1) mod m"

partial_function (option) randomize_256_loop ::
  "(nat \<Rightarrow> stake) \<Rightarrow> stake \<Rightarrow> nat \<Rightarrow> (stake \<times> nat) option" where
  "randomize_256_loop gen m i =
     (if gen i \<le> randomize_256_max m then Some (gen i mod m, i + 1)
      else randomize_256_loop gen m (i + 1))"

text \<open>
  The generator is the sequence \<open>gen\<close> of the numbers it returns and its position \<open>i\<close>. A zero
  modulus panics, a generator that never returns an accepted number loops: both are \<open>None\<close>.
\<close>

definition randomize_256_with_rng :: "(nat \<Rightarrow> stake) \<Rightarrow> nat \<Rightarrow> stake \<Rightarrow> (stake \<times> nat) option" where
  "randomize_256_with_rng gen i m = (if m = 0 then None else randomize_256_loop gen m i)"

definition weighted_get_leader ::
  "(nat \<Rightarrow> nat \<Rightarrow> nat) \<Rightarrow> round \<Rightarrow> (node_id \<times> stake) list \<Rightarrow> node_id panics" where
  "weighted_get_leader randomize r vals = generate_random_validator_u64 randomize r vals"

definition simple_get_leader :: "round \<Rightarrow> (node_id \<times> stake) list \<Rightarrow> node_id panics" where
  "simple_get_leader r vals =
     (let vs = map fst (filter (\<lambda>(_, s). s \<noteq> 0) vals)
      in if vs = [] then None else Some (vs ! (r mod length vs)))"

section \<open>Specification\<close>

text \<open>Lay the stakes end to end and take the node whose segment holds the index.\<close>

fun choose_by_stake :: "(node_id \<times> stake) list \<Rightarrow> nat \<Rightarrow> node_id option" where
  "choose_by_stake [] i = None"
| "choose_by_stake ((n, s) # vals) i =
     (if i < unat s then Some n else choose_by_stake vals (i - unat s))"

definition stake_total :: "(node_id \<times> stake) list \<Rightarrow> nat" where
  "stake_total vals = sum_list (map (\<lambda>e. unat (snd e)) vals)"

text \<open>The documented range of \<open>Rng::gen_range(0..m)\<close>.\<close>

definition randomizer_ok :: "(nat \<Rightarrow> nat \<Rightarrow> nat) \<Rightarrow> bool" where
  "randomizer_ok randomize \<longleftrightarrow> (\<forall>x m. 0 < m \<longrightarrow> randomize x m < m)"

section \<open>Binary search\<close>

lemma bsearch_correct:
  assumes "lo \<le> k" "k \<le> hi"
    and "\<And>i. lo \<le> i \<Longrightarrow> i < k \<Longrightarrow> below (xs ! i)"
    and "\<And>i. k \<le> i \<Longrightarrow> i < hi \<Longrightarrow> \<not> below (xs ! i)"
  shows "bsearch below xs lo hi = k"
  using assms
proof (induction below xs lo hi rule: bsearch.induct)
  case (1 below xs lo hi)
  show ?case
  proof (cases "lo < hi")
    case True
    let ?mid = "lo + (hi - lo) div 2"
    have mid: "lo \<le> ?mid" "?mid < hi"
      using True by auto
    show ?thesis
    proof (cases "below (xs ! ?mid)")
      case below: True
      have "?mid < k"
        using 1(6) [of ?mid] below mid by (meson not_less)
      then have "bsearch below xs (?mid + 1) hi = k"
        using 1 True below mid by (intro 1(1)) auto
      then show ?thesis
        using True below by (subst bsearch.simps) (simp add: Let_def)
    next
      case ge: False
      have "k \<le> ?mid"
        using 1(5) [of ?mid] ge mid by (meson not_less)
      then have "bsearch below xs lo ?mid = k"
        using 1 True ge mid by (intro 1(2)) auto
      then show ?thesis
        using True ge by (subst bsearch.simps) (simp add: Let_def)
    qed
  next
    case False
    then show ?thesis
      using 1 by (subst bsearch.simps) simp
  qed
qed

lemma bsearch_takeWhile:
  assumes "\<And>i j. i \<le> j \<Longrightarrow> j < length xs \<Longrightarrow> below (xs ! j) \<Longrightarrow> below (xs ! i)"
  shows "bsearch below xs 0 (length xs) = length (takeWhile below xs)"
proof (rule bsearch_correct)
  let ?k = "length (takeWhile below xs)"
  show "?k \<le> length xs"
    by (rule length_takeWhile_le)
  show "below (xs ! i)" if "i < ?k" for i
    using that set_takeWhileD [OF nth_mem [OF that]] by (simp add: takeWhile_nth)
  show "\<not> below (xs ! i)" if "?k \<le> i" "i < length xs" for i
    using that assms [of ?k i] nth_length_takeWhile [of below xs] by auto
qed simp

lemma pick_by_bound_dropWhile:
  assumes "sorted (map snd bounds)"
  shows "pick_by_bound bounds idx =
    (case dropWhile (\<lambda>(_, b). \<not> b > idx) bounds of [] \<Rightarrow> None | e # _ \<Rightarrow> Some (fst e))"
proof -
  let ?below = "\<lambda>(_, b). \<not> b > idx"
  have "bsearch ?below bounds 0 (length bounds) = length (takeWhile ?below bounds)"
  proof (rule bsearch_takeWhile)
    fix i j
    assume "i \<le> j" "j < length bounds" "?below (bounds ! j)"
    moreover from this have "snd (bounds ! i) \<le> snd (bounds ! j)"
      using sorted_nth_mono [OF assms, of i j] by simp
    ultimately show "?below (bounds ! i)"
      by (auto simp: case_prod_beta)
  qed
  moreover have "dropWhile ?below bounds = drop (length (takeWhile ?below bounds)) bounds"
    by (rule dropWhile_eq_drop)
  ultimately show ?thesis
    by (auto simp: pick_by_bound_def Let_def Cons_nth_drop_Suc [symmetric] split: list.split)
qed

section \<open>Weighted round robin\<close>

lemma stake_total_simps [simp]:
  "stake_total [] = 0" "stake_total ((n, s) # vals) = unat s + stake_total vals"
  by (simp_all add: stake_total_def)

lemma stake_bounds_u64_ok:
  assumes "tot + stake_total vals \<le> u64_max"
  shows "\<exists>bounds. stake_bounds_u64 tot vals = Some (bounds, tot + stake_total vals) \<and>
    sorted (map snd bounds) \<and> (\<forall>b \<in> snd ` set bounds. tot < b) \<and>
    (bounds = [] \<longleftrightarrow> stake_total vals = 0) \<and>
    (\<forall>idx \<ge> tot. (case dropWhile (\<lambda>(_, b). \<not> b > idx) bounds of [] \<Rightarrow> None | e # _ \<Rightarrow> Some (fst e)) =
       choose_by_stake vals (idx - tot))"
  using assms
proof (induction tot vals rule: stake_bounds_u64.induct)
  case (2 tot n s vals)
  show ?case
  proof (cases "unat s = 0")
    case True
    then show ?thesis
      using 2 by simp
  next
    case False
    let ?t = "tot + unat s"
    have add: "checked_add_u64 tot (unat s) = Some ?t" and le: "\<not> unat s > u64_max"
      using 2(3) by (simp_all add: checked_add_u64_def)
    obtain bounds where b: "stake_bounds_u64 ?t vals = Some (bounds, ?t + stake_total vals)"
      "sorted (map snd bounds)" "\<forall>b \<in> snd ` set bounds. ?t < b"
      and c: "\<forall>idx \<ge> ?t. (case dropWhile (\<lambda>(_, b). \<not> b > idx) bounds of [] \<Rightarrow> None | e # _ \<Rightarrow> Some (fst e)) =
        choose_by_stake vals (idx - ?t)"
      using 2(1) [OF le _ add] False 2(3) by (auto simp: add.assoc)
    have "stake_bounds_u64 tot ((n, s) # vals) = Some ((n, ?t) # bounds, ?t + stake_total vals)"
      using b(1) le False 2(3) by (simp add: checked_add_u64_def)
    then show ?thesis
      using b(2,3) c False by (auto simp: less_imp_le add.assoc not_less)
  qed
qed simp

lemma stake_bounds_u64_members:
  "stake_bounds_u64 tot vals = Some (bounds, t) \<Longrightarrow> n \<in> fst ` set bounds \<Longrightarrow>
   \<exists>s. (n, s) \<in> set vals \<and> s \<noteq> 0"
proof (induction tot vals arbitrary: bounds t rule: stake_bounds_u64.induct)
  case (2 tot m s vals)
  show ?case
  proof (cases "unat s = 0")
    case True
    then show ?thesis
      using 2 by auto
  next
    case False
    then obtain tot' bs where r: "checked_add_u64 tot (unat s) = Some tot'"
      "stake_bounds_u64 tot' vals = Some (bs, t)" "bounds = (m, tot') # bs" "\<not> unat s > u64_max"
      using 2(3) by (auto split: Option.bind_splits if_splits)
    show ?thesis
      using 2(1) [OF r(4) _ r(1,2)] False r(3) 2(4) by auto
  qed
qed auto

lemma generate_random_validator_u64_eq:
  assumes "stake_total vals \<le> u64_max" and "0 < stake_total vals"
  shows "generate_random_validator_u64 randomize r vals =
    choose_by_stake vals (randomize r (stake_total vals))"
  using stake_bounds_u64_ok [of 0 vals] assms
  by (auto simp: generate_random_validator_u64_def pick_by_bound_dropWhile)

lemma pick_by_bound_member: "pick_by_bound bounds idx = Some n \<Longrightarrow> n \<in> fst ` set bounds"
  by (auto simp: pick_by_bound_def Let_def split: if_splits)

lemma generate_random_validator_u64_SomeE:
  assumes "generate_random_validator_u64 randomize r vals = Some n"
  obtains bounds tot where "stake_bounds_u64 0 vals = Some (bounds, tot)"
    and "pick_by_bound bounds (randomize r tot) = Some n"
  using assms by (cases "stake_bounds_u64 0 vals") (auto simp: generate_random_validator_u64_def)

lemma choose_by_stake_total: "i < stake_total vals \<Longrightarrow> \<exists>n. choose_by_stake vals i = Some n"
  by (induction vals i rule: choose_by_stake.induct) auto

lemma choose_by_stake_None: "stake_total vals \<le> i \<Longrightarrow> choose_by_stake vals i = None"
  by (induction vals i rule: choose_by_stake.induct) auto

lemma choose_by_stake_member: "choose_by_stake vals i = Some n \<Longrightarrow> n \<in> fst ` set vals"
  by (induction vals i rule: choose_by_stake.induct) (auto split: if_splits)

text \<open>Every validator owns as many indices as it has stake.\<close>

lemma choose_by_stake_card:
  assumes "distinct (map fst vals)"
  shows "card {i. choose_by_stake vals i = Some n} = (case map_of vals n of None \<Rightarrow> 0 | Some s \<Rightarrow> unat s)"
  using assms
proof (induction vals)
  case (Cons e vals)
  obtain m s where e: "e = (m, s)"
    by (cases e)
  have split: "{i. choose_by_stake (e # vals) i = Some n} =
      (if n = m then {i. i < unat s} else {}) \<union> (+) (unat s) ` {i. choose_by_stake vals i = Some n}"
    unfolding e by (force simp: image_iff not_less intro: exI [of _ "_ - unat s"] split: if_splits)
  show ?case
  proof (cases "n = m")
    case True
    then have "{i. choose_by_stake vals i = Some n} = {}"
      using Cons.prems e by (auto dest: choose_by_stake_member)
    then show ?thesis
      using True e by (simp add: split)
  next
    case False
    then have "card {i. choose_by_stake (e # vals) i = Some n} =
        card ((+) (unat s) ` {i. choose_by_stake vals i = Some n})"
      by (simp only: split if_False Un_empty_left)
    then show ?thesis
      using False Cons e by (simp add: card_image)
  qed
qed simp

text \<open>
  C26. The weighted election is proportional to stake: over the indices the generator can return for
  the total stake, a validator is elected for exactly as many of them as it has units of stake.
\<close>

theorem weighted_election_proportional:
  assumes "distinct (map fst vals)" and "(n, s) \<in> set vals"
    and "stake_total vals \<le> u64_max" and "0 < stake_total vals"
  shows "card {i. i < stake_total vals \<and> weighted_get_leader (\<lambda>_ _. i) r vals = Some n} = unat s"
proof -
  have "{i. i < stake_total vals \<and> weighted_get_leader (\<lambda>_ _. i) r vals = Some n} =
      {i. choose_by_stake vals i = Some n}"
    using assms(3,4) choose_by_stake_None [of vals]
    by (auto simp: weighted_get_leader_def generate_random_validator_u64_eq) (metis not_less option.distinct(1))
  then show ?thesis
    using choose_by_stake_card [OF assms(1), of n] assms(1,2) by simp
qed

theorem weighted_election_proportional_witness:
  "card {i. i < 10 \<and> weighted_get_leader (\<lambda>_ _. i) 5 [(1, 3), (2, 0), (3, 7)] = Some 3} = 7"
  using weighted_election_proportional [of "[(1, 3), (2, 0), (3, 7)]" 3 7 5] by simp

section \<open>Unbiased sampling\<close>

lemma unat_randomize_256_max:
  assumes "m \<noteq> 0"
  shows "unat (randomize_256_max m) = unat m * (2 ^ 256 div unat m) - 1"
proof -
  have m: "0 < unat m" "unat m < 2 ^ 256"
    using assms unat_stake_less [of m] by (simp_all add: unat_gt_0)
  have "unat (- 1 - m + 1) = 2 ^ 256 - unat m"
  proof -
    have "unat (- 1 - m) = 2 ^ 256 - 1 - unat m"
      by (subst unat_sub) (simp_all add: unsigned_minus_1_eq_mask mask_eq_exp_minus_1)
    then show ?thesis
      using m unfolding unat_word_ariths(1) [of "- 1 - m" 1] by simp
  qed
  then have "unat ((- 1 - m + 1) mod m) = (2 ^ 256 - unat m) mod unat m"
    by (simp add: unat_mod_distrib)
  also have "\<dots> = 2 ^ 256 mod unat m"
    using m by (metis less_imp_le mod_add_self2 le_add_diff_inverse2)
  finally have r: "unat ((- 1 - m + 1) mod m) = 2 ^ 256 mod unat m" .
  have "unat (randomize_256_max m) = 2 ^ 256 - 1 - 2 ^ 256 mod unat m"
    unfolding randomize_256_max_def using r
    by (subst unat_sub) (simp_all add: unsigned_minus_1_eq_mask mask_eq_exp_minus_1)
  then show ?thesis
    by (simp add: minus_mod_eq_mult_div [symmetric])
qed

lemma randomize_256_accept_iff:
  assumes "m \<noteq> 0"
  shows "r \<le> randomize_256_max m \<longleftrightarrow> unat r < unat m * (2 ^ 256 div unat m)"
proof -
  have "0 < unat m" "unat m \<le> 2 ^ 256"
    using assms unat_stake_less [of m] by (simp_all add: unat_gt_0)
  then have "0 < unat m * (2 ^ 256 div unat m)"
    by (simp add: div_greater_zero_iff)
  then show ?thesis
    unfolding word_le_nat_alt unat_randomize_256_max [OF assms] by linarith
qed

lemma card_residues:
  assumes "k < m"
  shows "card {x::nat. x < m * q \<and> x mod m = k} = q"
proof -
  have "{x. x < m * q \<and> x mod m = k} = (\<lambda>j. m * j + k) ` {j. j < q}"
  proof (intro set_eqI iffI)
    fix x
    assume "x \<in> {x. x < m * q \<and> x mod m = k}"
    then have "x = m * (x div m) + k" "x div m < q"
      by (auto simp: less_mult_imp_div_less mult.commute)
    then show "x \<in> (\<lambda>j. m * j + k) ` {j. j < q}"
      by blast
  next
    fix x
    assume "x \<in> (\<lambda>j. m * j + k) ` {j. j < q}"
    then obtain j where j: "x = m * j + k" "j < q"
      by blast
    then have "x < m * (j + 1)"
      using assms by simp
    also have "\<dots> \<le> m * q"
      using j by (intro mult_le_mono2) simp
    finally show "x \<in> {x. x < m * q \<and> x mod m = k}"
      using j assms by simp
  qed
  then show ?thesis
    using assms by (simp add: card_image inj_on_def)
qed



text \<open>The loop returns as soon as the generator yields an accepted number, with that number reduced.\<close>

lemma randomize_256_loop_returns:
  assumes "gen (i + j) \<le> randomize_256_max m"
    and "\<And>j'. j' < j \<Longrightarrow> \<not> gen (i + j') \<le> randomize_256_max m"
  shows "randomize_256_loop gen m i = Some (gen (i + j) mod m, i + j + 1)"
  using assms
proof (induction j arbitrary: i)
  case 0
  then show ?case
    by (subst randomize_256_loop.simps) simp
next
  case (Suc j)
  have "randomize_256_loop gen m (i + 1) = Some (gen (i + 1 + j) mod m, i + 1 + j + 1)"
    using Suc.prems(1) Suc.prems(2) [of "Suc _"] by (intro Suc.IH) simp_all
  then show ?case
    using Suc.prems(2) [of 0] by (subst randomize_256_loop.simps) simp
qed

lemma randomize_256_with_rng_returns:
  assumes "m \<noteq> 0" and "\<exists>j \<ge> i. gen j \<le> randomize_256_max m"
  shows "\<exists>r i'. randomize_256_with_rng gen i m = Some (r, i') \<and> r < m"
proof -
  have "\<exists>j. gen (i + j) \<le> randomize_256_max m"
    using assms(2) le_Suc_ex by blast
  then obtain j where "gen (i + j) \<le> randomize_256_max m"
    "\<And>j'. j' < j \<Longrightarrow> \<not> gen (i + j') \<le> randomize_256_max m"
    using exists_least_iff [of "\<lambda>j. gen (i + j) \<le> randomize_256_max m"] by blast
  then have "randomize_256_loop gen m i = Some (gen (i + j) mod m, i + j + 1)"
    by (rule randomize_256_loop_returns)
  then show ?thesis
    using assms(1) by (simp add: randomize_256_with_rng_def word_mod_less_divisor word_gt_0)
qed

lemma choose_by_stake_Cons_word:
  assumes "unat (tot + s) = unat tot + unat s" and "tot \<le> idx"
  shows "choose_by_stake ((n, s) # vals) (unat idx - unat tot) =
    (if idx < tot + s then Some n else choose_by_stake vals (unat idx - unat (tot + s)))"
proof -
  have "unat idx - unat tot < unat s \<longleftrightarrow> idx < tot + s"
    using assms unfolding word_less_nat_alt word_le_nat_alt by linarith
  then show ?thesis
    by (simp add: assms(1))
qed

lemma stake_bounds_u256_ok:
  assumes "unat tot + stake_total vals < 2 ^ 256" and "stake_bounds_u256 tot vals = (bounds, t)"
  shows "unat t = unat tot + stake_total vals \<and> sorted (map snd bounds) \<and>
    (\<forall>b \<in> snd ` set bounds. tot < b) \<and> (bounds = [] \<longleftrightarrow> stake_total vals = 0) \<and>
    (\<forall>idx \<ge> tot. (case dropWhile (\<lambda>(_, b). \<not> b > idx) bounds of [] \<Rightarrow> None | e # _ \<Rightarrow> Some (fst e)) =
       choose_by_stake vals (unat idx - unat tot))"
  using assms
proof (induction tot vals arbitrary: bounds t rule: stake_bounds_u256.induct)
  case (2 tot n s vals)
  show ?case
  proof (cases "s > 0")
    case True
    obtain bs where r: "stake_bounds_u256 (tot + s) vals = (bs, t)" "bounds = (n, tot + s) # bs"
      using True 2(4) by (auto split: prod.splits)
    have u: "unat (tot + s) = unat tot + unat s"
      using 2(3) by (simp add: unat_word_ariths)
    have pos: "0 < unat s"
      using True by (simp add: unat_gt_0 word_gt_0)
    have IH: "unat t = unat (tot + s) + stake_total vals" "sorted (map snd bs)"
      "\<forall>b \<in> snd ` set bs. tot + s < b"
      "\<forall>idx \<ge> tot + s. (case dropWhile (\<lambda>(_, b). \<not> b > idx) bs of [] \<Rightarrow> None | e # _ \<Rightarrow> Some (fst e)) =
         choose_by_stake vals (unat idx - unat (tot + s))"
      using 2(1) [OF True _ r(1)] u 2(3) by simp_all
    have tot: "tot < tot + s"
      using u pos by (simp add: word_less_nat_alt)
    have "\<forall>idx \<ge> tot.
        (case dropWhile (\<lambda>(_, b). \<not> b > idx) bounds of [] \<Rightarrow> None | e # _ \<Rightarrow> Some (fst e)) =
        choose_by_stake ((n, s) # vals) (unat idx - unat tot)"
      using IH(4) r(2) by (auto simp: choose_by_stake_Cons_word [OF u] not_less simp del: choose_by_stake.simps dest: leD)
    moreover have "\<forall>b \<in> snd ` set bounds. tot < b"
      using IH(3) tot r(2) by (auto intro: less_trans)
    moreover have "sorted (map snd bounds)"
      using IH(2,3) r(2) by (auto simp: less_imp_le)
    ultimately show ?thesis
      using IH(1) u pos r(2) by simp
  next
    case False
    then have "s = 0"
      by (simp add: word_gt_0)
    then show ?thesis
      using 2 by simp
  qed
qed simp

text \<open>
  C32. The 256-bit selection equals the reference: when the total stake is positive and fits 256
  bits, \<open>generate_random_validator_with_randomizer\<close> hands the exact total to the randomizer and
  returns the node whose segment holds the index when all stakes are laid end to end; it panics
  only if the index is not below the total.
\<close>

theorem generate_with_randomizer_correct:
  assumes "stake_total vals < 2 ^ 256" and "0 < stake_total vals"
  shows "generate_random_validator_with_randomizer vals rnd =
    choose_by_stake vals (unat (rnd (word_of_nat (stake_total vals))))"
proof -
  obtain bounds t where b: "stake_bounds_u256 0 vals = (bounds, t)"
    by fastforce
  note ok = stake_bounds_u256_ok [of 0 vals, OF _ b]
  have "unat t = stake_total vals"
    using ok assms by simp
  then have "t = word_of_nat (stake_total vals)"
    using assms(1) by (simp add: word_unat_eq_iff unat_of_nat take_bit_nat_eq_self)
  then show ?thesis
    using ok assms
    by (auto simp: generate_random_validator_with_randomizer_def b pick_by_bound_dropWhile)
qed

theorem generate_with_randomizer_correct_witness:
  "generate_random_validator_with_randomizer [(1, 3), (2, 0), (3, 7)] (\<lambda>_. 4) = Some 3"
  using generate_with_randomizer_correct [of "[(1, 3), (2, 0), (3, 7)]" "\<lambda>_. 4"] by simp

section \<open>The leader election interface\<close>

text \<open>
  The contract of the trait \<open>LeaderElection\<close> (\<open>leader_election.rs\<close>): an elected leader is a
  validator with positive stake, and there is one for every round when \<open>ok\<close> holds of the
  validators.
\<close>

locale leader_election =
  fixes get_leader :: "round \<Rightarrow> (node_id \<times> stake) list \<Rightarrow> node_id panics"
    and ok :: "(node_id \<times> stake) list \<Rightarrow> bool"
  assumes leader_staked: "get_leader r vals = Some n \<Longrightarrow> \<exists>s. (n, s) \<in> set vals \<and> s \<noteq> 0"
    and leader_exists: "ok vals \<Longrightarrow> \<exists>n. get_leader r vals = Some n"
begin

lemma leader_member:
  assumes "vs_wf vs" and "get_leader r (validators vs) = Some n"
  shows "is_member vs n \<and> 0 < node_stake vs n"
proof -
  obtain s where "(n, s) \<in> set (validators vs)" "s \<noteq> 0"
    using leader_staked [OF assms(2)] by blast
  then have "map_of (validators vs) n = Some s"
    using assms(1) by (simp add: vs_wf_def bt_wf_distinct)
  then show ?thesis
    using \<open>s \<noteq> 0\<close> by (simp add: is_member_def node_stake_def unat_gt_0)
qed

lemma leader_exists_member:
  assumes "vs_wf vs" and "ok (validators vs)"
  shows "\<exists>n. get_leader r (validators vs) = Some n \<and> is_member vs n \<and> 0 < node_stake vs n"
  using leader_exists [OF assms(2)] leader_member [OF assms(1)] by blast

end

definition weighted_ok :: "(nat \<Rightarrow> nat \<Rightarrow> nat) \<Rightarrow> (node_id \<times> stake) list \<Rightarrow> bool" where
  "weighted_ok randomize vals \<longleftrightarrow>
     randomizer_ok randomize \<and> 0 < stake_total vals \<and> stake_total vals \<le> u64_max"

interpretation wrr: leader_election "weighted_get_leader randomize" "weighted_ok randomize"
  for randomize
proof unfold_locales
  fix r vals n
  assume "weighted_get_leader randomize r vals = Some n"
  then obtain bounds tot where b: "stake_bounds_u64 0 vals = Some (bounds, tot)"
    and p: "pick_by_bound bounds (randomize r tot) = Some n"
    unfolding weighted_get_leader_def by (rule generate_random_validator_u64_SomeE)
  show "\<exists>s. (n, s) \<in> set vals \<and> s \<noteq> 0"
    using b pick_by_bound_member [OF p] by (rule stake_bounds_u64_members)
next
  fix r vals
  assume ok: "weighted_ok randomize vals"
  then have "randomize r (stake_total vals) < stake_total vals"
    by (simp add: weighted_ok_def randomizer_ok_def)
  then have "\<exists>n. choose_by_stake vals (randomize r (stake_total vals)) = Some n"
    by (rule choose_by_stake_total)
  moreover have "weighted_get_leader randomize r vals =
      choose_by_stake vals (randomize r (stake_total vals))"
    unfolding weighted_get_leader_def
    by (rule generate_random_validator_u64_eq) (use ok in \<open>simp_all add: weighted_ok_def\<close>)
  ultimately show "\<exists>n. weighted_get_leader randomize r vals = Some n"
    by simp
qed

interpretation srr: leader_election simple_get_leader "\<lambda>vals. \<exists>(_, s) \<in> set vals. s \<noteq> 0"
proof unfold_locales
  fix r vals n
  assume l: "simple_get_leader r vals = Some n"
  let ?vs = "map fst (filter (\<lambda>(_, s). s \<noteq> 0) vals)"
  have vs: "?vs \<noteq> []" "n = ?vs ! (r mod length ?vs)"
    using l by (auto simp only: simple_get_leader_def Let_def option.inject split: if_splits)
  have "n \<in> set ?vs"
    unfolding vs(2) by (rule nth_mem) (rule mod_less_divisor, use vs(1) in blast)
  then show "\<exists>s. (n, s) \<in> set vals \<and> s \<noteq> 0"
    by auto
next
  fix r and vals :: "(node_id \<times> stake) list"
  assume "\<exists>(_, s) \<in> set vals. s \<noteq> 0"
  then show "\<exists>n. simple_get_leader r vals = Some n"
    by (auto simp: simple_get_leader_def Let_def filter_empty_conv)
qed

text \<open>
  C30. With the documented range of the generator and a total stake between 1 and \<open>u64::MAX\<close>, the
  weighted election returns a leader for every round, and every leader it returns is a member
  of the validator set with positive stake.
\<close>

theorem weighted_leader_is_staked_member:
  assumes "vs_wf vs" and "weighted_ok randomize (validators vs)"
  shows "\<exists>n. weighted_get_leader randomize r (validators vs) = Some n \<and>
    is_member vs n \<and> 0 < node_stake vs n"
  using assms by (rule wrr.leader_exists_member)

theorem weighted_leader_is_staked_member_witness:
  "\<exists>n. weighted_get_leader (\<lambda>x m. x mod m) 17 (validators example_vs) = Some n \<and>
    is_member example_vs n \<and> 0 < node_stake example_vs n"
proof (rule weighted_leader_is_staked_member)
  show "vs_wf example_vs"
    using example_vs_safe by (simp add: vs_safe_def)
  show "weighted_ok (\<lambda>x m. x mod m) (validators example_vs)"
    by (simp add: weighted_ok_def randomizer_ok_def example_vs_def)
qed

end
