(* ===== verification/Certificates.thy ===== *)
theory Certificates
  imports Epochs
begin

text \<open>
  The data of the consensus protocol (\<open>monad-consensus-types/src\<close>): votes, quorum certificates,
  block headers, tips, no-endorsement certificates, timeouts and timeout certificates, round
  certificates and checkpoints, and the functions the source defines on them.

  The type variable \<open>'s\<close> is the signature collection (\<open>SCT\<close>) and \<open>'e\<close> stands for the values of
  the associated types of the execution protocol (\<open>EPT\<close>). Hashing and signing are outside the
  repository; they are the fields of the record \<open>crypto\<close>, an argument of the definitions that
  use them. What is signed is the RLP encoding of a value under a signing domain: \<open>sc_msg\<close>
  is the value with its domain.
\<close>

section \<open>Data\<close>

type_synonym signature = nat
type_synonym keypair = nat

record vote =
  v_id :: block_id
  v_round :: round
  v_epoch :: epoch

record 's quorum_certificate =
  qc_info :: vote
  qc_signatures :: 's

record no_endorsement =
  ne_epoch :: epoch
  ne_round :: round
  ne_tip_qc_round :: round

record 's no_endorsement_certificate =
  nec_msg :: no_endorsement
  nec_signatures :: 's

record timeout_info =
  ti_epoch :: epoch
  ti_round :: round
  ti_high_qc_round :: round
  ti_high_tip_round :: round

record 's high_tip_round_sig_col_tuple =
  ht_high_qc_round :: round
  ht_high_tip_round :: round
  ht_sigs :: 's

record 's no_tip_certificate =
  nt_epoch :: epoch
  nt_round :: round
  nt_tip_rounds :: "'s high_tip_round_sig_col_tuple list"
  nt_high_qc :: "'s quorum_certificate"

datatype 's fresh_proposal_certificate =
    Nec "'s no_endorsement_certificate"
  | NoTip "'s no_tip_certificate"

record ('s, 'e) consensus_block_header =
  h_block_round :: round
  h_epoch :: epoch
  h_qc :: "'s quorum_certificate"
  h_author :: node_id
  h_seq_num :: seq_num
  h_timestamp_ns :: "128 word"
  h_round_signature :: signature
  h_delayed_execution_results :: "'e list"
  h_execution_inputs :: 'e
  h_block_body_id :: nat

record ('s, 'e) consensus_tip =
  tip_block_header :: "('s, 'e) consensus_block_header"
  tip_signature :: signature
  tip_fresh_certificate :: "'s fresh_proposal_certificate option"

datatype ('s, 'e) high_extend =
    HE_Tip "('s, 'e) consensus_tip"
  | HE_Qc "'s quorum_certificate"

datatype ('s, 'e) high_extend_vote =
    HEV_Tip "('s, 'e) consensus_tip" signature
  | HEV_Qc "'s quorum_certificate"

record ('s, 'e) timeout_certificate =
  tc_epoch :: epoch
  tc_round :: round
  tc_tip_rounds :: "'s high_tip_round_sig_col_tuple list"
  tc_high_extend :: "('s, 'e) high_extend"

datatype ('s, 'e) round_certificate =
    RC_Qc "'s quorum_certificate"
  | RC_Tc "('s, 'e) timeout_certificate"

record ('s, 'e) timeout =
  tm_tminfo :: timeout_info
  tm_timeout_signature :: signature
  tm_high_extend :: "('s, 'e) high_extend_vote"
  tm_last_round_certificate :: "('s, 'e) round_certificate option"

record ('s, 'e) consensus_full_block =
  b_header :: "('s, 'e) consensus_block_header"
  b_body :: 'e

record root_info =
  ri_round :: round
  ri_seq_num :: seq_num
  ri_epoch :: epoch
  ri_block_id :: block_id
  ri_timestamp_ns :: "128 word"

record locked_epoch =
  le_epoch :: epoch
  le_round :: round

record ('s, 'e) checkpoint =
  cp_root :: block_id
  cp_high_certificate :: "('s, 'e) round_certificate"
  cp_validator_sets :: "locked_epoch list"

record block_range =
  br_last_block_id :: block_id
  br_num_blocks :: seq_num

datatype ('s, 'e) optimistic_commit =
    Proposed "('s, 'e) consensus_full_block"
  | Finalized "('s, 'e) consensus_full_block"

datatype block_validation_error =
    SystemTxnError
  | TxnError
  | RandaoError
  | HeaderError
  | PayloadError
  | HeaderPayloadMismatchError
  | BlockTimestampError

datatype sc_error =
    NodeIdNotInMapping "(node_id \<times> signature) list"
  | ConflictingSignatures node_id signature signature
  | InvalidSignaturesCreate "(node_id \<times> signature) list"
  | InvalidSignaturesVerify
  | DeserializeError

text \<open>
  A signed value with its signing domain; \<open>EmptyVoteMsg\<close> is the empty byte string in the domain
  of votes, over which the signature collection of the genesis certificate is formed.
\<close>

datatype sc_msg =
    VoteMsg vote
  | EmptyVoteMsg
  | TimeoutMsg timeout_info
  | NoEndorsementMsg no_endorsement
  | RoundMsg round

text \<open>
  The operations on hashes and signatures: the hashes of a header and of a body, \<open>new\<close> and
  \<open>verify\<close> of the signature collection, \<open>sign\<close> and \<open>verify\<close> of its signature type, and signing
  and recovery for the signature of a tip.
\<close>

record ('s, 'e) crypto =
  header_id :: "('s, 'e) consensus_block_header \<Rightarrow> block_id"
  body_id :: "'e \<Rightarrow> nat"
  sc_new :: "(node_id \<times> signature) list \<Rightarrow> validator_mapping \<Rightarrow> sc_msg \<Rightarrow> sc_error + 's"
  sc_verify :: "'s \<Rightarrow> validator_mapping \<Rightarrow> sc_msg \<Rightarrow> sc_error + node_id list"
  cert_sign :: "keypair \<Rightarrow> sc_msg \<Rightarrow> signature"
  cert_verify :: "signature \<Rightarrow> sc_msg \<Rightarrow> cert_pubkey \<Rightarrow> bool"
  tip_sign :: "keypair \<Rightarrow> ('s, 'e) consensus_block_header \<Rightarrow> signature"
  tip_recover :: "signature \<Rightarrow> ('s, 'e) consensus_block_header \<Rightarrow> node_id option"

section \<open>Operations\<close>

abbreviation qc_round :: "'s quorum_certificate \<Rightarrow> round" where
  "qc_round qc \<equiv> v_round (qc_info qc)"

abbreviation qc_epoch :: "'s quorum_certificate \<Rightarrow> epoch" where
  "qc_epoch qc \<equiv> v_epoch (qc_info qc)"

abbreviation qc_block_id :: "'s quorum_certificate \<Rightarrow> block_id" where
  "qc_block_id qc \<equiv> v_id (qc_info qc)"

text \<open>\<open>Rank\<close> orders votes by their round.\<close>

definition rank_less :: "vote \<Rightarrow> vote \<Rightarrow> bool" where
  "rank_less a b \<longleftrightarrow> v_round a < v_round b"

definition genesis_qc :: "('s, 'e) crypto \<Rightarrow> 's quorum_certificate panics" where
  "genesis_qc C =
     (case sc_new C [] (validator_mapping_new []) EmptyVoteMsg of
        Inl _ \<Rightarrow> None
      | Inr sigs \<Rightarrow> Some \<lparr>qc_info = \<lparr>v_id = GENESIS_BLOCK_ID, v_round = GENESIS_ROUND, v_epoch = 1\<rparr>,
                        qc_signatures = sigs\<rparr>)"

definition get_parent_id :: "('s, 'e) consensus_block_header \<Rightarrow> block_id" where
  "get_parent_id h = qc_block_id (h_qc h)"

definition get_committable_id ::
  "('s, 'e) crypto \<Rightarrow> 's quorum_certificate \<Rightarrow> ('s, 'e) consensus_block_header \<Rightarrow> block_id option panics"
where
  "get_committable_id C qc qc_parent_block = do {
     rust_assert (qc_block_id qc = header_id C qc_parent_block);
     r \<leftarrow> round_add (qc_round (h_qc qc_parent_block)) 1;
     Some (if qc_round qc = r then Some (get_parent_id qc_parent_block) else None) }"

datatype ordering = Ord_Less | Ord_Equal | Ord_Greater

definition nat_cmp :: "nat \<Rightarrow> nat \<Rightarrow> ordering" where
  "nat_cmp a b = (if a < b then Ord_Less else if a = b then Ord_Equal else Ord_Greater)"

abbreviation tip_round :: "('s, 'e) consensus_tip \<Rightarrow> round" where
  "tip_round t \<equiv> h_block_round (tip_block_header t)"

fun high_extend_partial_cmp :: "('s, 'e) high_extend \<Rightarrow> ('s, 'e) high_extend \<Rightarrow> ordering option" where
  "high_extend_partial_cmp (HE_Qc qc1) (HE_Qc qc2) =
     (if qc_round qc1 = qc_round qc2 then None else Some (nat_cmp (qc_round qc1) (qc_round qc2)))"
| "high_extend_partial_cmp (HE_Tip t1) (HE_Tip t2) =
     (if tip_round t1 = tip_round t2 then None else Some (nat_cmp (tip_round t1) (tip_round t2)))"
| "high_extend_partial_cmp (HE_Qc qc1) (HE_Tip t2) =
     (if qc_round qc1 = tip_round t2 then Some Ord_Greater
      else Some (nat_cmp (qc_round qc1) (tip_round t2)))"
| "high_extend_partial_cmp (HE_Tip t1) (HE_Qc qc2) =
     (if tip_round t1 = qc_round qc2 then Some Ord_Less
      else Some (nat_cmp (tip_round t1) (qc_round qc2)))"

text \<open>The operator \<open>>\<close> that \<open>PartialOrd\<close> derives from \<open>partial_cmp\<close>.\<close>

definition high_extend_gt :: "('s, 'e) high_extend \<Rightarrow> ('s, 'e) high_extend \<Rightarrow> bool" where
  "high_extend_gt a b \<longleftrightarrow> high_extend_partial_cmp a b = Some Ord_Greater"

fun high_extend_qc :: "('s, 'e) high_extend \<Rightarrow> 's quorum_certificate" where
  "high_extend_qc (HE_Tip t) = h_qc (tip_block_header t)"
| "high_extend_qc (HE_Qc qc) = qc"

fun high_extend_vote_qc :: "('s, 'e) high_extend_vote \<Rightarrow> 's quorum_certificate" where
  "high_extend_vote_qc (HEV_Tip t _) = h_qc (tip_block_header t)"
| "high_extend_vote_qc (HEV_Qc qc) = qc"

fun high_extend_from_vote :: "('s, 'e) high_extend_vote \<Rightarrow> ('s, 'e) high_extend" where
  "high_extend_from_vote (HEV_Qc qc) = HE_Qc qc"
| "high_extend_from_vote (HEV_Tip t _) = HE_Tip t"

fun round_certificate_round :: "('s, 'e) round_certificate \<Rightarrow> round" where
  "round_certificate_round (RC_Qc qc) = qc_round qc"
| "round_certificate_round (RC_Tc tc) = tc_round tc"

fun round_certificate_tc :: "('s, 'e) round_certificate \<Rightarrow> ('s, 'e) timeout_certificate option" where
  "round_certificate_tc (RC_Qc qc) = None"
| "round_certificate_tc (RC_Tc tc) = Some tc"

fun round_certificate_qc :: "('s, 'e) round_certificate \<Rightarrow> 's quorum_certificate" where
  "round_certificate_qc (RC_Qc qc) = qc"
| "round_certificate_qc (RC_Tc tc) = high_extend_qc (tc_high_extend tc)"

definition tip_new ::
  "('s, 'e) crypto \<Rightarrow> keypair \<Rightarrow> ('s, 'e) consensus_block_header \<Rightarrow>
   's fresh_proposal_certificate option \<Rightarrow> ('s, 'e) consensus_tip" where
  "tip_new C kp h fresh =
     \<lparr>tip_block_header = h, tip_signature = tip_sign C kp h, tip_fresh_certificate = fresh\<rparr>"

definition signature_author :: "('s, 'e) crypto \<Rightarrow> ('s, 'e) consensus_tip \<Rightarrow> node_id option" where
  "signature_author C t = tip_recover C (tip_signature t) (tip_block_header t)"

definition round_signature_new :: "('s, 'e) crypto \<Rightarrow> round \<Rightarrow> keypair \<Rightarrow> signature" where
  "round_signature_new C r kp = cert_sign C kp (RoundMsg r)"

definition round_signature_verify :: "('s, 'e) crypto \<Rightarrow> signature \<Rightarrow> round \<Rightarrow> cert_pubkey \<Rightarrow> bool" where
  "round_signature_verify C sig r pk = cert_verify C sig (RoundMsg r) pk"

definition full_block_new ::
  "('s, 'e) crypto \<Rightarrow> ('s, 'e) consensus_block_header \<Rightarrow> 'e \<Rightarrow>
   block_validation_error + ('s, 'e) consensus_full_block" where
  "full_block_new C h body =
     (if body_id C body \<noteq> h_block_body_id h then Inl HeaderPayloadMismatchError
      else Inr \<lparr>b_header = h, b_body = body\<rparr>)"

definition timeout_new ::
  "('s, 'e) crypto \<Rightarrow> keypair \<Rightarrow> timeout_info \<Rightarrow> ('s, 'e) high_extend \<Rightarrow>
   ('s, 'e) round_certificate option \<Rightarrow> ('s, 'e) timeout" where
  "timeout_new C cert_keypair ti he last_round_certificate =
     \<lparr>tm_tminfo = ti,
      tm_timeout_signature = cert_sign C cert_keypair (TimeoutMsg ti),
      tm_high_extend =
        (case he of
           HE_Qc qc \<Rightarrow> HEV_Qc qc
         | HE_Tip t \<Rightarrow>
             HEV_Tip t (cert_sign C cert_keypair
               (VoteMsg \<lparr>v_id = header_id C (tip_block_header t), v_round = ti_round ti, v_epoch = ti_epoch ti\<rparr>))),
      tm_last_round_certificate = last_round_certificate\<rparr>"

text \<open>
  \<open>TimeoutCertificate::new\<close>. \<open>tc_collect\<close> is the first loop: the signatures grouped by what was
  signed, and the highest extension; \<open>tc_tip_rounds_of\<close> is the second, over the groups.
\<close>

fun tc_collect ::
  "(node_id \<times> ('s, 'e) timeout) list \<Rightarrow> ('s, 'e) high_extend \<Rightarrow>
   (timeout_info \<times> (node_id \<times> signature) list) list \<Rightarrow>
   ('s, 'e) high_extend \<times> (timeout_info \<times> (node_id \<times> signature) list) list" where
  "tc_collect [] highest sigs = (highest, sigs)"
| "tc_collect ((n, t) # ts) highest sigs =
     tc_collect ts
       (if high_extend_gt (high_extend_from_vote (tm_high_extend t)) highest
        then high_extend_from_vote (tm_high_extend t) else highest)
       (AList.update (tm_tminfo t) (get_or [] sigs (tm_tminfo t) @ [(n, tm_timeout_signature t)]) sigs)"

fun tc_tip_rounds_of ::
  "('s, 'e) crypto \<Rightarrow> validator_mapping \<Rightarrow> (timeout_info \<times> (node_id \<times> signature) list) list \<Rightarrow>
   sc_error + 's high_tip_round_sig_col_tuple list" where
  "tc_tip_rounds_of C vm [] = Inr []"
| "tc_tip_rounds_of C vm ((ti, sigs) # rest) =
     try_then (sc_new C sigs vm (TimeoutMsg ti)) (\<lambda>sct.
     try_then (tc_tip_rounds_of C vm rest) (\<lambda>tuples.
     Inr (\<lparr>ht_high_qc_round = ti_high_qc_round ti, ht_high_tip_round = ti_high_tip_round ti,
           ht_sigs = sct\<rparr> # tuples)))"

definition timeout_certificate_new ::
  "('s, 'e) crypto \<Rightarrow> epoch \<Rightarrow> round \<Rightarrow> (node_id \<times> ('s, 'e) timeout) list \<Rightarrow> validator_mapping \<Rightarrow>
   (sc_error + ('s, 'e) timeout_certificate) panics" where
  "timeout_certificate_new C e r timeouts vm = do {
     gqc \<leftarrow> genesis_qc C;
     let (highest, sigs) = tc_collect timeouts (HE_Qc gqc) [];
     Some (try_then (tc_tip_rounds_of C vm sigs) (\<lambda>tip_rounds.
       Inr \<lparr>tc_epoch = e, tc_round = r, tc_tip_rounds = tip_rounds, tc_high_extend = highest\<rparr>)) }"

section \<open>The order on high extensions\<close>

text \<open>The rank whose order \<open>partial_cmp\<close> computes: the round first, a QC above a tip.\<close>

fun high_extend_rank :: "('s, 'e) high_extend \<Rightarrow> nat" where
  "high_extend_rank (HE_Tip t) = 2 * tip_round t"
| "high_extend_rank (HE_Qc qc) = 2 * qc_round qc + 1"

lemma high_extend_gt_iff: "high_extend_gt a b \<longleftrightarrow> high_extend_rank b < high_extend_rank a"
  by (cases a; cases b) (auto simp: high_extend_gt_def nat_cmp_def)

lemma high_extend_qc_from_vote [simp]:
  "high_extend_qc (high_extend_from_vote h) = high_extend_vote_qc h"
  by (cases h) simp_all

lemma high_extend_from_vote_timeout_new [simp]:
  "high_extend_from_vote (tm_high_extend (timeout_new C kp ti he lrc)) = he"
  by (cases he) (simp_all add: timeout_new_def)

text \<open>
  C34. \<open>HighExtend\<close>'s partial order is the one of the ranks: irreflexive, transitive, and two
  extensions are incomparable exactly when they are of the same kind and round.
\<close>

theorem high_extend_partial_cmp_spec:
  "high_extend_partial_cmp a b =
    (if high_extend_rank a < high_extend_rank b then Some Ord_Less
     else if high_extend_rank b < high_extend_rank a then Some Ord_Greater else None)"
  by (cases a; cases b) (auto simp: nat_cmp_def)

section \<open>Timeout certificates\<close>

text \<open>The signatures of the timeouts that signed a given timeout info, in order.\<close>

definition signers_of ::
  "(node_id \<times> ('s, 'e) timeout) list \<Rightarrow> timeout_info \<Rightarrow> (node_id \<times> signature) list" where
  "signers_of ts ti =
     map (\<lambda>(n, t). (n, tm_timeout_signature t)) (filter (\<lambda>(_, t). tm_tminfo t = ti) ts)"

lemma signers_of_Cons:
  "signers_of ((n, t) # ts) ti =
     (if tm_tminfo t = ti then (n, tm_timeout_signature t) # signers_of ts ti else signers_of ts ti)"
  by (simp add: signers_of_def)

lemma get_or_update: "get_or d (AList.update k v m) k' = (if k' = k then v else get_or d m k')"
  by (simp add: get_or_def update_conv')

lemma tc_collect_highest:
  assumes "tc_collect ts h0 s0 = (h, s)"
  shows "(h = h0 \<or> (\<exists>(n, t) \<in> set ts. h = high_extend_from_vote (tm_high_extend t))) \<and>
    high_extend_rank h0 \<le> high_extend_rank h \<and>
    (\<forall>(n, t) \<in> set ts. high_extend_rank (high_extend_from_vote (tm_high_extend t)) \<le> high_extend_rank h)"
  using assms
  by (induction ts h0 s0 rule: tc_collect.induct) (auto simp: high_extend_gt_iff split: if_splits)

lemma tc_collect_sigs:
  assumes "tc_collect ts h0 s0 = (h, s)" and "hm_wf s0"
  shows "hm_wf s \<and> fst ` set s = fst ` set s0 \<union> (\<lambda>(_, t). tm_tminfo t) ` set ts \<and>
    (\<forall>ti. get_or [] s ti = get_or [] s0 ti @ signers_of ts ti)"
  using assms
proof (induction ts h0 s0 rule: tc_collect.induct)
  case (2 n t ts highest sigs)
  let ?sigs = "AList.update (tm_tminfo t) (get_or [] sigs (tm_tminfo t) @ [(n, tm_timeout_signature t)]) sigs"
  have "hm_wf s \<and> fst ` set s = fst ` set ?sigs \<union> (\<lambda>(_, t). tm_tminfo t) ` set ts \<and>
      (\<forall>ti. get_or [] s ti = get_or [] ?sigs ti @ signers_of ts ti)"
    using 2 by (intro 2(1)) (simp_all add: hm.wf_ins)
  moreover have "fst ` set ?sigs = insert (tm_tminfo t) (fst ` set sigs)"
    by (simp add: update_keys flip: set_map) (simp add: image_iff; blast)
  ultimately show ?case
    by (auto simp: get_or_update signers_of_Cons)
qed (simp add: signers_of_def)

lemma tc_tip_rounds_of_ok:
  assumes "tc_tip_rounds_of C vm groups = Inr tuples"
  shows "list_all2 (\<lambda>(ti, sigs) tup. sc_new C sigs vm (TimeoutMsg ti) = Inr (ht_sigs tup) \<and>
    ht_high_qc_round tup = ti_high_qc_round ti \<and> ht_high_tip_round tup = ti_high_tip_round ti) groups tuples"
  using assms
  by (induction C vm groups arbitrary: tuples rule: tc_tip_rounds_of.induct) (auto simp: try_then_eq_Inr)

text \<open>The tuple of a certificate that carries the signatures over a timeout's info.\<close>

definition tuple_covers ::
  "('s, 'e) crypto \<Rightarrow> validator_mapping \<Rightarrow> (node_id \<times> ('s, 'e) timeout) list \<Rightarrow> ('s, 'e) timeout \<Rightarrow>
   's high_tip_round_sig_col_tuple \<Rightarrow> bool" where
  "tuple_covers C vm ts t tup \<longleftrightarrow>
     sc_new C (signers_of ts (tm_tminfo t)) vm (TimeoutMsg (tm_tminfo t)) = Inr (ht_sigs tup) \<and>
     ht_high_qc_round tup = ti_high_qc_round (tm_tminfo t) \<and>
     ht_high_tip_round tup = ti_high_tip_round (tm_tminfo t)"

lemma list_all2_tup_right:
  "list_all2 (\<lambda>(a, b) y. P a b y) xs ys \<Longrightarrow> y \<in> set ys \<Longrightarrow> \<exists>a b. (a, b) \<in> set xs \<and> P a b y"
  by (induction xs ys rule: list_all2_induct) auto

lemma list_all2_tup_left:
  "list_all2 (\<lambda>(a, b) y. P a b y) xs ys \<Longrightarrow> (a, b) \<in> set xs \<Longrightarrow> \<exists>y \<in> set ys. P a b y"
  by (induction xs ys rule: list_all2_induct) auto

lemma tc_groups_exact:
  assumes "tc_collect ts h0 [] = (h, groups)"
  shows "(ti, sigs) \<in> set groups \<longleftrightarrow> sigs = signers_of ts ti \<and> (\<exists>(n, t) \<in> set ts. tm_tminfo t = ti)"
proof -
  have g: "hm_wf groups" "fst ` set groups = (\<lambda>(_, t). tm_tminfo t) ` set ts"
    "\<And>ti. get_or [] groups ti = signers_of ts ti"
    using tc_collect_sigs [OF assms] by (auto simp: hm_wf_def get_or_def)
  show ?thesis
  proof
    assume m: "(ti, sigs) \<in> set groups"
    then have "get_or [] groups ti = sigs"
      using g(1) by (simp add: get_or_def hm_wf_def)
    moreover have "ti \<in> (\<lambda>(_, t). tm_tminfo t) ` set ts"
      using m g(2) by force
    ultimately show "sigs = signers_of ts ti \<and> (\<exists>(n, t) \<in> set ts. tm_tminfo t = ti)"
      using g(3) by auto
  next
    assume a: "sigs = signers_of ts ti \<and> (\<exists>(n, t) \<in> set ts. tm_tminfo t = ti)"
    then have "ti \<in> fst ` set groups"
      using g(2) by force
    then obtain sigs' where m: "(ti, sigs') \<in> set groups"
      by force
    then have "get_or [] groups ti = sigs'"
      using g(1) by (simp add: get_or_def hm_wf_def)
    then show "(ti, sigs) \<in> set groups"
      using a g(3) m by simp
  qed
qed

lemma timeout_certificate_new_spec:
  assumes "timeout_certificate_new C e r ts vm = Some (Inr tc)"
  shows "tc_epoch tc = e \<and> tc_round tc = r \<and>
    (\<forall>(n, t) \<in> set ts. \<not> high_extend_gt (high_extend_from_vote (tm_high_extend t)) (tc_high_extend tc)) \<and>
    (tc_high_extend tc \<in> (\<lambda>(n, t). high_extend_from_vote (tm_high_extend t)) ` set ts \<or>
     (\<exists>qc. genesis_qc C = Some qc \<and> tc_high_extend tc = HE_Qc qc)) \<and>
    (\<forall>tup \<in> set (tc_tip_rounds tc). \<exists>(n, t) \<in> set ts. tuple_covers C vm ts t tup) \<and>
    (\<forall>(n, t) \<in> set ts. \<exists>tup \<in> set (tc_tip_rounds tc). tuple_covers C vm ts t tup)"
proof -
  obtain gqc h groups where g: "genesis_qc C = Some gqc" "tc_collect ts (HE_Qc gqc) [] = (h, groups)"
    and r: "tc_tip_rounds_of C vm groups = Inr (tc_tip_rounds tc)" "tc_high_extend tc = h"
      "tc_epoch tc = e" "tc_round tc = r"
    using assms
    by (auto simp: timeout_certificate_new_def try_then_eq_Inr split: Option.bind_splits prod.splits)
  note all2 = tc_tip_rounds_of_ok [OF r(1)]
  note groups = tc_groups_exact [OF g(2)]
  have "\<exists>(n, t) \<in> set ts. tuple_covers C vm ts t tup" if tup: "tup \<in> set (tc_tip_rounds tc)" for tup
  proof -
    obtain ti sigs where "(ti, sigs) \<in> set groups" "sc_new C sigs vm (TimeoutMsg ti) = Inr (ht_sigs tup)"
      "ht_high_qc_round tup = ti_high_qc_round ti" "ht_high_tip_round tup = ti_high_tip_round ti"
      using list_all2_tup_right [OF all2 tup] by blast
    then show ?thesis
      using groups by (auto simp: tuple_covers_def)
  qed
  moreover have "\<exists>tup \<in> set (tc_tip_rounds tc). tuple_covers C vm ts t tup" if "(n, t) \<in> set ts" for n t
    using list_all2_tup_left [OF all2, of "tm_tminfo t" "signers_of ts (tm_tminfo t)"] groups that
    by (auto simp: tuple_covers_def)
  moreover have "tc_high_extend tc \<in> (\<lambda>(n, t). high_extend_from_vote (tm_high_extend t)) ` set ts \<or>
      tc_high_extend tc = HE_Qc gqc"
    using tc_collect_highest [OF g(2)] r(2) by force
  ultimately show ?thesis
    using r(2-4) g(1) tc_collect_highest [OF g(2)] by (auto simp: high_extend_gt_iff not_less)
qed

text \<open>
  C17. A timeout certificate built by \<open>TimeoutCertificate::new\<close> extends the highest extension of
  its timeouts (or the genesis certificate): none of theirs is greater. Its tuples are exactly the
  distinct infos the timeouts signed: every timeout's rounds appear in a tuple, and the collection of
  a tuple is the one built from precisely the signatures over its info.
\<close>

theorem timeout_certificate_new_correct:
  assumes "timeout_certificate_new C e r ts vm = Some (Inr tc)"
  shows "tc_epoch tc = e \<and> tc_round tc = r \<and>
    (\<forall>(n, t) \<in> set ts. \<not> high_extend_gt (high_extend_from_vote (tm_high_extend t)) (tc_high_extend tc)) \<and>
    (tc_high_extend tc \<in> (\<lambda>(n, t). high_extend_from_vote (tm_high_extend t)) ` set ts \<or>
     (\<exists>qc. genesis_qc C = Some qc \<and> tc_high_extend tc = HE_Qc qc)) \<and>
    (\<forall>tup \<in> set (tc_tip_rounds tc). \<exists>(n, t) \<in> set ts. tuple_covers C vm ts t tup) \<and>
    (\<forall>(n, t) \<in> set ts. \<exists>tup \<in> set (tc_tip_rounds tc). tuple_covers C vm ts t tup)"
  using assms by (rule timeout_certificate_new_spec)

definition example_qc :: "round \<Rightarrow> unit quorum_certificate" where
  "example_qc r = \<lparr>qc_info = \<lparr>v_id = 40, v_round = r, v_epoch = 3\<rparr>, qc_signatures = ()\<rparr>"

definition trivial_crypto :: "(unit, unit) crypto" where
  "trivial_crypto =
     \<lparr>header_id = h_block_round, body_id = (\<lambda>_. 0), sc_new = (\<lambda>_ _ _. Inr ()),
      sc_verify = (\<lambda>_ _ _. Inr []), cert_sign = (\<lambda>kp _. kp), cert_verify = (\<lambda>_ _ _. True),
      tip_sign = (\<lambda>kp _. kp), tip_recover = (\<lambda>sig _. Some sig)\<rparr>"

definition example_timeout_of :: "round \<Rightarrow> (unit, unit) timeout" where
  "example_timeout_of r =
     timeout_new trivial_crypto 7
       \<lparr>ti_epoch = 3, ti_round = 9, ti_high_qc_round = r, ti_high_tip_round = 0\<rparr> (HE_Qc (example_qc r)) None"

theorem timeout_certificate_new_correct_witness:
  "\<exists>tc. timeout_certificate_new trivial_crypto 3 9 [(2, example_timeout_of 8), (4, example_timeout_of 6)] [] =
     Some (Inr tc) \<and> tc_round tc = 9 \<and> \<not> high_extend_gt (HE_Qc (example_qc 6)) (tc_high_extend tc)"
proof -
  let ?ts = "[(2, example_timeout_of 8), (4, example_timeout_of 6)]"
  have "\<exists>tc. timeout_certificate_new trivial_crypto 3 9 ?ts [] = Some (Inr tc)"
    by (simp add: timeout_certificate_new_def genesis_qc_def trivial_crypto_def example_timeout_of_def
        timeout_new_def get_or_def)
  then obtain tc where tc: "timeout_certificate_new trivial_crypto 3 9 ?ts [] = Some (Inr tc)" ..
  have he: "high_extend_from_vote (tm_high_extend (example_timeout_of 6)) = HE_Qc (example_qc 6)"
    by (simp add: example_timeout_of_def)
  show ?thesis
    using timeout_certificate_new_correct [OF tc] tc he by auto
qed

end
