(* ===== verification/SigCollection.thy ===== *)
theory SigCollection
  imports Certificates
begin

text \<open>
  Signature collections: the contract of the trait \<open>SignatureCollection\<close>
  (\<open>monad-validator/src/signature_collection.rs\<close>) that vote and timeout aggregation and certificate
  validation rely on, and its implementation \<open>MultiSig\<close> (\<open>monad-multi-sig/src/lib.rs\<close>). The
  signature scheme itself is outside the repository: \<open>sig_ops\<close> holds its recovery and
  verification functions, of which nothing is assumed.
\<close>

section \<open>Data and operations\<close>

record sig_ops =
  so_recover :: "signature \<Rightarrow> sc_msg \<Rightarrow> cert_pubkey option"
  so_verify :: "signature \<Rightarrow> sc_msg \<Rightarrow> cert_pubkey \<Rightarrow> bool"

record multi_sig =
  sigs :: "signature list"

text \<open>
  The loop of \<open>MultiSig::new\<close> over the signatures, with the map of accepted signatures, the
  signatures of unknown nodes and the invalid ones.
\<close>

fun multi_sig_new_loop ::
  "sig_ops \<Rightarrow> validator_mapping \<Rightarrow> sc_msg \<Rightarrow> (node_id \<times> signature) list \<Rightarrow>
   (node_id \<times> signature) list \<Rightarrow> (node_id \<times> signature) list \<Rightarrow> (node_id \<times> signature) list \<Rightarrow>
   sc_error + ((node_id \<times> signature) list \<times> (node_id \<times> signature) list \<times> (node_id \<times> signature) list)"
where
  "multi_sig_new_loop SO vm msg [] sig_map external_sigs invalid_sigs =
     Inr (sig_map, external_sigs, invalid_sigs)"
| "multi_sig_new_loop SO vm msg ((n, sig) # rest) sig_map external_sigs invalid_sigs =
     (case map_of vm n of
        None \<Rightarrow> multi_sig_new_loop SO vm msg rest sig_map (external_sigs @ [(n, sig)]) invalid_sigs
      | Some pubkey \<Rightarrow>
          (case so_recover SO sig msg of
             None \<Rightarrow> multi_sig_new_loop SO vm msg rest sig_map external_sigs (invalid_sigs @ [(n, sig)])
           | Some recovered \<Rightarrow>
               if recovered \<noteq> pubkey \<or> \<not> so_verify SO sig msg pubkey
               then multi_sig_new_loop SO vm msg rest sig_map external_sigs (invalid_sigs @ [(n, sig)])
               else
                 (case map_of sig_map n of
                    None \<Rightarrow> multi_sig_new_loop SO vm msg rest (bt_insert n sig sig_map) external_sigs invalid_sigs
                  | Some sig' \<Rightarrow>
                      if sig' \<noteq> sig then Inl (ConflictingSignatures n sig' sig)
                      else multi_sig_new_loop SO vm msg rest sig_map external_sigs invalid_sigs)))"

definition multi_sig_new ::
  "sig_ops \<Rightarrow> (node_id \<times> signature) list \<Rightarrow> validator_mapping \<Rightarrow> sc_msg \<Rightarrow> sc_error + multi_sig" where
  "multi_sig_new SO ss vm msg =
     try_then (multi_sig_new_loop SO vm msg ss [] [] []) (\<lambda>(sig_map, external_sigs, invalid_sigs).
       if external_sigs \<noteq> [] then Inl (NodeIdNotInMapping external_sigs)
       else if invalid_sigs \<noteq> [] then Inl (InvalidSignaturesCreate invalid_sigs)
       else Inr \<lparr>sigs = map snd sig_map\<rparr>)"

text \<open>The two loops of \<open>MultiSig::verify\<close>: recover the keys, then match them to validators.\<close>

fun multi_sig_recover_loop ::
  "sig_ops \<Rightarrow> sc_msg \<Rightarrow> signature list \<Rightarrow> (cert_pubkey \<times> signature) list \<Rightarrow> signature list \<Rightarrow>
   (cert_pubkey \<times> signature) list \<times> signature list" where
  "multi_sig_recover_loop SO msg [] verified invalid_sigs = (verified, invalid_sigs)"
| "multi_sig_recover_loop SO msg (sig # rest) verified invalid_sigs =
     (case so_recover SO sig msg of
        None \<Rightarrow> multi_sig_recover_loop SO msg rest verified (invalid_sigs @ [sig])
      | Some pubkey \<Rightarrow>
          if \<not> so_verify SO sig msg pubkey
          then multi_sig_recover_loop SO msg rest verified (invalid_sigs @ [sig])
          else multi_sig_recover_loop SO msg rest (AList.update pubkey sig verified) invalid_sigs)"

fun multi_sig_match_loop ::
  "validator_mapping \<Rightarrow> (cert_pubkey \<times> signature) list \<Rightarrow> node_id list \<Rightarrow>
   node_id list \<times> (cert_pubkey \<times> signature) list" where
  "multi_sig_match_loop [] verified node_ids = (node_ids, verified)"
| "multi_sig_match_loop ((n, pk) # vm) verified node_ids =
     (if map_of verified pk \<noteq> None
      then multi_sig_match_loop vm (AList.delete pk verified) (node_ids @ [n])
      else multi_sig_match_loop vm verified node_ids)"

definition multi_sig_verify ::
  "sig_ops \<Rightarrow> multi_sig \<Rightarrow> validator_mapping \<Rightarrow> sc_msg \<Rightarrow> sc_error + node_id list" where
  "multi_sig_verify SO ms vm msg =
     (let (verified, invalid_sigs) = multi_sig_recover_loop SO msg (sigs ms) [] [];
          (node_ids, remaining) = multi_sig_match_loop vm verified []
      in if invalid_sigs @ map snd remaining \<noteq> [] then Inl InvalidSignaturesVerify else Inr node_ids)"

definition sig_valid :: "sig_ops \<Rightarrow> signature \<Rightarrow> sc_msg \<Rightarrow> cert_pubkey \<Rightarrow> bool" where
  "sig_valid SO sig msg pk \<longleftrightarrow> so_recover SO sig msg = Some pk \<and> so_verify SO sig msg pk"

text \<open>The cryptographic operations with \<open>MultiSig\<close> as the collection, over any other operations.\<close>

definition with_multi_sig ::
  "sig_ops \<Rightarrow> (multi_sig, 'e) crypto \<Rightarrow> (multi_sig, 'e) crypto" where
  "with_multi_sig SO C =
     C\<lparr>sc_new := multi_sig_new SO, sc_verify := multi_sig_verify SO, cert_verify := so_verify SO\<rparr>"

section \<open>The contract\<close>

text \<open>
  \<open>valid sig msg pk\<close>: the signature is accepted for the message and the key. The laws of
  construction hold for any key mapping; those of verification for one in key order, and the
  agreement of the two for one in which no two nodes share a key.
\<close>

definition signer_valid ::
  "(signature \<Rightarrow> sc_msg \<Rightarrow> cert_pubkey \<Rightarrow> bool) \<Rightarrow> validator_mapping \<Rightarrow> sc_msg \<Rightarrow> node_id \<Rightarrow> signature \<Rightarrow> bool"
where
  "signer_valid valid vm msg n sig \<longleftrightarrow> (\<exists>pk. map_of vm n = Some pk \<and> valid sig msg pk)"

definition vm_wf :: "validator_mapping \<Rightarrow> bool" where
  "vm_wf vm \<longleftrightarrow> bt_wf vm \<and> distinct (map snd vm)"

locale signature_collection =
  fixes C :: "('s, 'e) crypto"
    and valid :: "signature \<Rightarrow> sc_msg \<Rightarrow> cert_pubkey \<Rightarrow> bool"
  assumes new_sound:
      "sc_new C ss vm msg = Inr s \<Longrightarrow> (n, sig) \<in> set ss \<Longrightarrow> signer_valid valid vm msg n sig"
    and new_invalid:
      "sc_new C ss vm msg = Inl (InvalidSignaturesCreate bad) \<Longrightarrow>
       bad \<noteq> [] \<and> (\<forall>(n, sig) \<in> set bad. (n, sig) \<in> set ss \<and> \<not> signer_valid valid vm msg n sig)"
    and new_complete:
      "\<lbrakk>distinct (map fst ss); \<forall>(n, sig) \<in> set ss. signer_valid valid vm msg n sig\<rbrakk> \<Longrightarrow>
       \<exists>s. sc_new C ss vm msg = Inr s"
    and new_error:
      "\<lbrakk>distinct (map fst ss); fst ` set ss \<subseteq> fst ` set vm; sc_new C ss vm msg = Inl e\<rbrakk> \<Longrightarrow>
       \<exists>bad. e = InvalidSignaturesCreate bad"
    and verify_sound:
      "\<lbrakk>bt_wf vm; sc_verify C s vm msg = Inr ns\<rbrakk> \<Longrightarrow>
       distinct ns \<and> (\<forall>n \<in> set ns. \<exists>sig. signer_valid valid vm msg n sig)"
    and verify_new:
      "\<lbrakk>vm_wf vm; sc_new C ss vm msg = Inr s\<rbrakk> \<Longrightarrow>
       \<exists>ns. sc_verify C s vm msg = Inr ns \<and> set ns = fst ` set ss"
begin

lemma new_members: "sc_new C ss vm msg = Inr s \<Longrightarrow> fst ` set ss \<subseteq> fst ` set vm"
  using new_sound [of ss vm msg s] by (force simp: signer_valid_def dest: map_of_SomeD)

lemma genesis_qc_defined: "\<exists>qc. genesis_qc C = Some qc"
  using new_complete [of "[]" "validator_mapping_new []" EmptyVoteMsg] by (auto simp: genesis_qc_def)

text \<open>Removing the signatures reported invalid makes progress.\<close>

lemma new_invalid_shrinks:
  assumes "sc_new C ss vm msg = Inl (InvalidSignaturesCreate bad)"
  shows "length (filter (\<lambda>e. e \<notin> set bad) ss) < length ss"
proof -
  obtain x where "x \<in> set bad"
    using new_invalid [OF assms] by (cases bad) auto
  moreover from this have "x \<in> set ss"
    using new_invalid [OF assms] by auto
  ultimately show ?thesis
    by (intro length_filter_less [of x]) auto
qed

end

section \<open>MultiSig provides the contract\<close>

text \<open>One step of the loop by what the signature is: unknown signer, invalid, or valid.\<close>

lemma multi_sig_new_loop_Cons:
  "multi_sig_new_loop SO vm msg ((n, sig) # rest) m ext bad =
     (if n \<notin> fst ` set vm then multi_sig_new_loop SO vm msg rest m (ext @ [(n, sig)]) bad
      else if \<not> signer_valid (sig_valid SO) vm msg n sig
        then multi_sig_new_loop SO vm msg rest m ext (bad @ [(n, sig)])
      else (case map_of m n of
              None \<Rightarrow> multi_sig_new_loop SO vm msg rest (bt_insert n sig m) ext bad
            | Some sig' \<Rightarrow> if sig' \<noteq> sig then Inl (ConflictingSignatures n sig' sig)
                else multi_sig_new_loop SO vm msg rest m ext bad))"
proof (cases "map_of vm n")
  case None
  then have "n \<notin> fst ` set vm"
    by (simp add: map_of_eq_None_iff)
  with None show ?thesis
    by simp
next
  case (Some pk)
  then have "n \<in> fst ` set vm"
    by (force dest: map_of_SomeD)
  with Some show ?thesis
    by (auto simp: signer_valid_def sig_valid_def split: option.splits)
qed

lemmas multi_sig_step_simps = multi_sig_new_loop.simps(1) multi_sig_new_loop_Cons
declare multi_sig_new_loop.simps(2) [simp del]

lemma multi_sig_new_loop_ok:
  assumes "multi_sig_new_loop SO vm msg ss m ext bad = Inr (m', ext', bad')" and "bt_wf m"
  shows "bt_wf m' \<and>
    set ext' = set ext \<union> {(n, sig) \<in> set ss. n \<notin> fst ` set vm} \<and>
    set bad' = set bad \<union>
      {(n, sig) \<in> set ss. n \<in> fst ` set vm \<and> \<not> signer_valid (sig_valid SO) vm msg n sig} \<and>
    set m' = set m \<union>
      {(n, sig) \<in> set ss. n \<in> fst ` set vm \<and> signer_valid (sig_valid SO) vm msg n sig}"
  using assms
proof (induction ss arbitrary: m ext bad)
  case (Cons e rest)
  obtain n sig where e: "e = (n, sig)"
    by (cases e)
  note step = Cons.prems(1) [unfolded e multi_sig_new_loop_Cons]
  consider "n \<notin> fst ` set vm"
    | "n \<in> fst ` set vm" "\<not> signer_valid (sig_valid SO) vm msg n sig"
    | "n \<in> fst ` set vm" "signer_valid (sig_valid SO) vm msg n sig" "map_of m n = None"
    | "n \<in> fst ` set vm" "signer_valid (sig_valid SO) vm msg n sig" "map_of m n = Some sig"
    using step by (cases "map_of m n") (auto split: if_splits)
  then show ?case
  proof cases
    case 1
    then show ?thesis
      using Cons.IH [of m "ext @ [(n, sig)]" bad] step Cons.prems(2) e by auto
  next
    case 2
    then show ?thesis
      using Cons.IH [of m ext "bad @ [(n, sig)]"] step Cons.prems(2) e by auto
  next
    case 3
    then show ?thesis
      using Cons.IH [of "bt_insert n sig m" ext bad] step Cons.prems(2) e
      by (auto simp: set_bt_insert_new)
  next
    case 4
    then have "(n, sig) \<in> set m"
      by (simp add: map_of_SomeD)
    then show ?thesis
      using 4 Cons.IH [of m ext bad] step Cons.prems(2) e by auto
  qed
qed auto

lemma multi_sig_new_loop_distinct:
  assumes "distinct (map fst ss)" and "fst ` set ss \<inter> fst ` set m = {}"
  shows "\<exists>r. multi_sig_new_loop SO vm msg ss m ext bad = Inr r"
  using assms
proof (induction ss arbitrary: m ext bad)
  case (Cons e rest)
  obtain n sig where e: "e = (n, sig)"
    by (cases e)
  have "map_of m n = None"
    using Cons.prems(2) e by (auto simp: map_of_eq_None_iff)
  then show ?case
    using Cons e by (auto simp: multi_sig_new_loop_Cons)
qed simp

lemma multi_sig_new_InrE:
  assumes "multi_sig_new SO ss vm msg = Inr s"
  obtains m where "bt_wf m" and "set m = set ss" and "sigs s = map snd m"
    and "\<And>n sig. (n, sig) \<in> set ss \<Longrightarrow> signer_valid (sig_valid SO) vm msg n sig"
proof -
  obtain m where l: "multi_sig_new_loop SO vm msg ss [] [] [] = Inr (m, [], [])" "sigs s = map snd m"
    using assms by (auto simp: multi_sig_new_def try_then_eq_Inr split: if_splits)
  note ok = multi_sig_new_loop_ok [OF l(1)]
  have v: "signer_valid (sig_valid SO) vm msg n sig" if "(n, sig) \<in> set ss" for n sig
    using ok that by auto
  have "set m = set ss"
    using ok by auto
  then show thesis
    using that [of m] ok l(2) v by simp
qed

lemma multi_sig_new_InlE:
  assumes "multi_sig_new SO ss vm msg = Inl (InvalidSignaturesCreate bad)"
  shows "bad \<noteq> []"
    and "set bad = {(n, sig) \<in> set ss. n \<in> fst ` set vm \<and> \<not> signer_valid (sig_valid SO) vm msg n sig}"
proof -
  have no: "multi_sig_new_loop SO vm msg ss m ext b \<noteq> Inl (InvalidSignaturesCreate bad)" for m ext b
    by (induction ss arbitrary: m ext b)
       (auto simp: multi_sig_new_loop_Cons split: option.splits if_splits)
  obtain m where l: "multi_sig_new_loop SO vm msg ss [] [] [] = Inr (m, [], bad)" "bad \<noteq> []"
    using assms no [of "[]" "[]" "[]"]
    by (cases "multi_sig_new_loop SO vm msg ss [] [] []") (auto simp: multi_sig_new_def split: if_splits)
  show "bad \<noteq> []"
    by (rule l(2))
  show "set bad = {(n, sig) \<in> set ss. n \<in> fst ` set vm \<and> \<not> signer_valid (sig_valid SO) vm msg n sig}"
    using multi_sig_new_loop_ok [OF l(1)] by simp
qed

lemma multi_sig_recover_loop_ok:
  assumes "multi_sig_recover_loop SO msg ss ver bad = (ver', bad')"
  shows "set bad' = set bad \<union> {sig \<in> set ss. \<nexists>pk. sig_valid SO sig msg pk} \<and>
    fst ` set ver' = fst ` set ver \<union> {pk. \<exists>sig \<in> set ss. sig_valid SO sig msg pk}"
  using assms
proof (induction SO msg ss ver bad rule: multi_sig_recover_loop.induct)
  case (2 SO msg sig rest ver bad)
  have keys: "fst ` set (AList.update pk sig ver) = insert pk (fst ` set ver)" for pk
    by (simp add: update_keys flip: set_map) (simp add: image_iff; blast)
  show ?case
  proof (cases "\<exists>pk. sig_valid SO sig msg pk")
    case True
    then obtain pk where pk: "so_recover SO sig msg = Some pk" "so_verify SO sig msg pk"
      by (auto simp: sig_valid_def)
    then show ?thesis
      using 2(3) [OF pk(1)] 2(4) by (auto simp: sig_valid_def keys)
  next
    case False
    then have "multi_sig_recover_loop SO msg rest ver (bad @ [sig]) = (ver', bad')"
      using 2(4) by (auto simp: sig_valid_def split: option.splits if_splits)
    then show ?thesis
      using False 2(1,2) by (cases "so_recover SO sig msg") (auto simp: sig_valid_def)
  qed
qed simp

lemma match_loop_step:
  "multi_sig_match_loop ((n, pk) # vm) ver ns =
     (if pk \<in> fst ` set ver then multi_sig_match_loop vm (AList.delete pk ver) (ns @ [n])
      else multi_sig_match_loop vm ver ns)"
  by (simp add: map_of_eq_None_iff)

lemma delete_keys_set: "fst ` set (AList.delete k m) = fst ` set m - {k}"
  by (auto simp: AList.delete_eq image_iff)

declare multi_sig_match_loop.simps(2) [simp del]

lemma match_loop_remaining:
  "multi_sig_match_loop vm ver ns = (ns', rem) \<Longrightarrow> fst ` set rem = fst ` set ver - snd ` set vm"
proof (induction vm arbitrary: ver ns)
  case (Cons e vm)
  obtain n pk where e: "e = (n, pk)"
    by (cases e)
  show ?case
  proof (cases "pk \<in> fst ` set ver")
    case True
    have "fst ` set rem = fst ` set ver - {pk} - snd ` set vm"
      using Cons.IH [of "AList.delete pk ver" "ns @ [n]"] Cons.prems True
      by (simp add: e match_loop_step delete_keys_set)
    then show ?thesis
      by (simp add: e) blast
  next
    case False
    have "fst ` set rem = fst ` set ver - snd ` set vm"
      using Cons.IH [of ver ns] Cons.prems False by (simp add: e match_loop_step)
    then show ?thesis
      using False by (simp add: e)
  qed
qed simp

lemma match_loop_members:
  assumes "multi_sig_match_loop vm ver ns = (ns', rem)"
  shows "\<exists>ns2. ns' = ns @ ns2 \<and> (\<forall>n \<in> set ns2. \<exists>pk. (n, pk) \<in> set vm \<and> pk \<in> fst ` set ver) \<and>
    (distinct (map fst vm) \<longrightarrow> distinct ns2)"
  using assms
proof (induction vm arbitrary: ver ns)
  case (Cons e vm)
  obtain n pk where e: "e = (n, pk)"
    by (cases e)
  show ?case
  proof (cases "pk \<in> fst ` set ver")
    case True
    then obtain ns2 where ns2: "ns' = (ns @ [n]) @ ns2"
      "\<forall>n \<in> set ns2. \<exists>k. (n, k) \<in> set vm \<and> k \<in> fst ` set ver - {pk}"
      "distinct (map fst vm) \<longrightarrow> distinct ns2"
      using Cons.IH [of "AList.delete pk ver" "ns @ [n]"] Cons.prems
      by (auto simp: e match_loop_step delete_keys_set)
    have "n \<notin> set ns2" if "n \<notin> fst ` set vm"
      using ns2(2) that by force
    moreover have "\<forall>n \<in> set ns2. \<exists>k. (n, k) \<in> set (e # vm) \<and> k \<in> fst ` set ver"
      using ns2(2) by fastforce
    ultimately show ?thesis
      using ns2 True e by (intro exI [of _ "n # ns2"]) auto
  next
    case False
    then obtain ns2 where "ns' = ns @ ns2" "distinct (map fst vm) \<longrightarrow> distinct ns2"
      "\<forall>n \<in> set ns2. \<exists>k. (n, k) \<in> set vm \<and> k \<in> fst ` set ver"
      using Cons.IH [of ver ns] Cons.prems by (auto simp: e match_loop_step)
    moreover from this have "\<forall>n \<in> set ns2. \<exists>k. (n, k) \<in> set (e # vm) \<and> k \<in> fst ` set ver"
      by fastforce
    ultimately show ?thesis
      by auto
  qed
qed simp

lemma match_loop_exact:
  assumes "multi_sig_match_loop vm ver ns = (ns', rem)" and "distinct (map snd vm)"
  shows "set ns' = set ns \<union> {n. \<exists>pk. (n, pk) \<in> set vm \<and> pk \<in> fst ` set ver}"
  using assms
proof (induction vm arbitrary: ver ns)
  case (Cons e vm)
  obtain n pk where e: "e = (n, pk)"
    by (cases e)
  have ne: "k \<noteq> pk" if "(m, k) \<in> set vm" for m k
    using Cons.prems(2) that e by force
  show ?case
  proof (cases "pk \<in> fst ` set ver")
    case True
    have "set ns' = set (ns @ [n]) \<union> {n. \<exists>k. (n, k) \<in> set vm \<and> k \<in> fst ` set ver - {pk}}"
      using Cons.IH [of "AList.delete pk ver" "ns @ [n]"] Cons.prems True
      by (simp add: e match_loop_step delete_keys_set)
    then show ?thesis
      using True ne by (auto simp: e)
  next
    case False
    then show ?thesis
      using Cons.IH [of ver ns] Cons.prems by (auto simp: e match_loop_step)
  qed
qed simp

lemma multi_sig_verify_sound:
  assumes "bt_wf vm" and "multi_sig_verify SO s vm msg = Inr ns"
  shows "distinct ns \<and> (\<forall>n \<in> set ns. \<exists>sig. signer_valid (sig_valid SO) vm msg n sig)"
proof -
  obtain ver bad rem where r: "multi_sig_recover_loop SO msg (sigs s) [] [] = (ver, bad)"
    and m: "multi_sig_match_loop vm ver [] = (ns, rem)"
    using assms(2) by (auto simp: multi_sig_verify_def Let_def split: prod.splits if_splits)
  have "distinct (map fst vm)"
    using assms(1) by (rule bt_wf_distinct)
  then have "distinct ns" "\<forall>n \<in> set ns. \<exists>pk. (n, pk) \<in> set vm \<and> pk \<in> fst ` set ver"
    using match_loop_members [OF m] by auto
  moreover have "fst ` set ver = {pk. \<exists>sig \<in> set (sigs s). sig_valid SO sig msg pk}"
    using multi_sig_recover_loop_ok [OF r] by simp
  ultimately show ?thesis
    unfolding signer_valid_def set_map_of [OF assms(1)] by blast
qed

lemma distinct_snd_unique:
  "distinct (map snd vm) \<Longrightarrow> (n, pk) \<in> set vm \<Longrightarrow> (n', pk) \<in> set vm \<Longrightarrow> n = n'"
  by (induction vm) force+

lemma keys_of_signers:
  assumes v: "\<And>n sig. (n, sig) \<in> set ss \<Longrightarrow> signer_valid (sig_valid SO) vm msg n sig" and "bt_wf vm"
  shows "pk \<in> {pk. \<exists>sig \<in> snd ` set ss. sig_valid SO sig msg pk} \<longleftrightarrow> (\<exists>n \<in> fst ` set ss. (n, pk) \<in> set vm)"
proof -
  have "sig_valid SO sig msg pk \<longleftrightarrow> (n, pk) \<in> set vm" if "(n, sig) \<in> set ss" for n sig
    using v [OF that] by (auto simp: signer_valid_def sig_valid_def set_map_of [OF assms(2)])
  then show ?thesis
    by force
qed

lemma multi_sig_verify_new:
  assumes "vm_wf vm" and "multi_sig_new SO ss vm msg = Inr s"
  shows "\<exists>ns. multi_sig_verify SO s vm msg = Inr ns \<and> set ns = fst ` set ss"
proof -
  obtain m where m: "set m = set ss" "sigs s = map snd m"
    and v: "\<And>n sig. (n, sig) \<in> set ss \<Longrightarrow> signer_valid (sig_valid SO) vm msg n sig"
    using assms(2) by (rule multi_sig_new_InrE) blast
  obtain ver bad where r: "multi_sig_recover_loop SO msg (sigs s) [] [] = (ver, bad)"
    by fastforce
  obtain ns rem where l: "multi_sig_match_loop vm ver [] = (ns, rem)"
    by fastforce
  have d: "distinct (map snd vm)" and bt: "bt_wf vm"
    using assms(1) by (simp_all add: vm_wf_def)
  have sg: "set (sigs s) = snd ` set ss"
    using m by simp
  have ver: "set bad = {sig \<in> snd ` set ss. \<nexists>pk. sig_valid SO sig msg pk}"
    "fst ` set ver = {pk. \<exists>sig \<in> snd ` set ss. sig_valid SO sig msg pk}"
    using multi_sig_recover_loop_ok [OF r] by (simp_all add: sg)
  have "set bad = {}"
    unfolding ver(1) using v by (force simp: signer_valid_def)
  have keys: "pk \<in> fst ` set ver \<longleftrightarrow> (\<exists>n \<in> fst ` set ss. (n, pk) \<in> set vm)" for pk
    unfolding ver(2) by (rule keys_of_signers [OF v bt])
  have "fst ` set rem = {}"
    unfolding match_loop_remaining [OF l] using keys by force
  moreover have "set ns = fst ` set ss"
  proof -
    have "set ns = {n. \<exists>pk. (n, pk) \<in> set vm \<and> pk \<in> fst ` set ver}"
      using match_loop_exact [OF l d] by simp
    also have "\<dots> = {n \<in> fst ` set ss. \<exists>pk. (n, pk) \<in> set vm}"
      unfolding keys using distinct_snd_unique [OF d] by blast
    also have "\<dots> = fst ` set ss"
      using v by (force simp: signer_valid_def dest: map_of_SomeD)
    finally show ?thesis .
  qed
  ultimately show ?thesis
    using r l \<open>set bad = {}\<close> by (intro exI [of _ ns]) (auto simp: multi_sig_verify_def)
qed

lemma with_multi_sig_simps [simp]:
  "sc_new (with_multi_sig SO C) = multi_sig_new SO"
  "sc_verify (with_multi_sig SO C) = multi_sig_verify SO"
  "cert_verify (with_multi_sig SO C) = so_verify SO"
  "header_id (with_multi_sig SO C) = header_id C"
  "body_id (with_multi_sig SO C) = body_id C"
  "cert_sign (with_multi_sig SO C) = cert_sign C"
  "tip_sign (with_multi_sig SO C) = tip_sign C"
  "tip_recover (with_multi_sig SO C) = tip_recover C"
  by (simp_all add: with_multi_sig_def)

lemma multi_sig_new_distinct:
  assumes "distinct (map fst ss)" and "fst ` set ss \<subseteq> fst ` set vm"
  shows "(\<exists>s. multi_sig_new SO ss vm msg = Inr s) \<or>
    (\<exists>bad. multi_sig_new SO ss vm msg = Inl (InvalidSignaturesCreate bad))"
proof -
  have "\<exists>r. multi_sig_new_loop SO vm msg ss [] [] [] = Inr r"
    by (rule multi_sig_new_loop_distinct [OF assms(1)]) simp
  then obtain m ext bad where l: "multi_sig_new_loop SO vm msg ss [] [] [] = Inr (m, ext, bad)"
    by (metis prod_cases3)
  have "n \<in> fst ` set vm" if "(n, sig) \<in> set ss" for n sig
    using subsetD [OF assms(2) imageI [OF that, of fst]] by simp
  then have none: "{(n, sig) \<in> set ss. n \<notin> fst ` set vm} = {}"
    by blast
  have "set ext = set [] \<union> {(n, sig) \<in> set ss. n \<notin> fst ` set vm}"
    using multi_sig_new_loop_ok [OF l bt_wf_Nil] by (elim conjE)
  then have "ext = []"
    unfolding none by simp
  then show ?thesis
    unfolding multi_sig_new_def l by (cases bad) simp_all
qed

interpretation ms: signature_collection "with_multi_sig SO C" "sig_valid SO"
  for SO C
proof unfold_locales
  fix ss vm msg s n sig
  assume "sc_new (with_multi_sig SO C) ss vm msg = Inr s" "(n, sig) \<in> set ss"
  then show "signer_valid (sig_valid SO) vm msg n sig"
    by (auto elim: multi_sig_new_InrE)
next
  fix ss vm msg bad
  assume "sc_new (with_multi_sig SO C) ss vm msg = Inl (InvalidSignaturesCreate bad)"
  then have "multi_sig_new SO ss vm msg = Inl (InvalidSignaturesCreate bad)"
    by simp
  from multi_sig_new_InlE [OF this]
  show "bad \<noteq> [] \<and> (\<forall>(n, sig) \<in> set bad. (n, sig) \<in> set ss \<and> \<not> signer_valid (sig_valid SO) vm msg n sig)"
    by auto
next
  fix ss vm msg
  assume a: "distinct (map fst ss)" "\<forall>(n, sig) \<in> set ss. signer_valid (sig_valid SO) vm msg n sig"
  then have sub: "fst ` set ss \<subseteq> fst ` set vm"
    by (force simp: signer_valid_def dest: map_of_SomeD)
  have "multi_sig_new SO ss vm msg \<noteq> Inl (InvalidSignaturesCreate bad)" for bad
    using a(2) multi_sig_new_InlE [of SO ss vm msg bad] by (cases bad) auto
  then show "\<exists>s. sc_new (with_multi_sig SO C) ss vm msg = Inr s"
    using multi_sig_new_distinct [OF a(1) sub, of SO msg] by auto
next
  fix ss vm msg e
  assume "distinct (map fst ss)" "fst ` set ss \<subseteq> fst ` set vm"
    "sc_new (with_multi_sig SO C) ss vm msg = Inl e"
  then show "\<exists>bad. e = InvalidSignaturesCreate bad"
    using multi_sig_new_distinct [of ss vm SO msg] by auto
next
  fix vm s msg ns
  assume "bt_wf vm" "sc_verify (with_multi_sig SO C) s vm msg = Inr ns"
  then show "distinct ns \<and> (\<forall>n \<in> set ns. \<exists>sig. signer_valid (sig_valid SO) vm msg n sig)"
    using multi_sig_verify_sound by simp
next
  fix vm ss msg s
  assume "vm_wf vm" "sc_new (with_multi_sig SO C) ss vm msg = Inr s"
  then show "\<exists>ns. sc_verify (with_multi_sig SO C) s vm msg = Inr ns \<and> set ns = fst ` set ss"
    using multi_sig_verify_new by simp
qed

text \<open>
  C25. A \<open>MultiSig\<close> verifies to its signers: when the signatures given to \<open>MultiSig::new\<close> are accepted
  and no two validators share a key, \<open>MultiSig::verify\<close> of the result over the same message and
  validators succeeds and returns each of the signers once, all of whose signatures are valid.
\<close>

theorem multi_sig_round_trip:
  assumes "vm_wf vm" and "multi_sig_new SO ss vm msg = Inr s"
  shows "\<exists>ns. multi_sig_verify SO s vm msg = Inr ns \<and> distinct ns \<and> set ns = fst ` set ss \<and>
    (\<forall>(n, sig) \<in> set ss. signer_valid (sig_valid SO) vm msg n sig)"
proof -
  obtain ns where ns: "multi_sig_verify SO s vm msg = Inr ns" "set ns = fst ` set ss"
    using multi_sig_verify_new [OF assms] by blast
  moreover have "distinct ns"
    using multi_sig_verify_sound [OF _ ns(1)] assms(1) by (simp add: vm_wf_def)
  ultimately show ?thesis
    using assms(2) by (auto elim: multi_sig_new_InrE)
qed

text \<open>A transparent scheme for examples: the signature of a message by a key is a number naming the key.\<close>

definition demo_sig_ops :: sig_ops where
  "demo_sig_ops = \<lparr>so_recover = (\<lambda>sig msg. Some (sig - 100)), so_verify = (\<lambda>sig msg pk. sig = pk + 100)\<rparr>"

definition demo_crypto :: "(multi_sig, unit) crypto" where
  "demo_crypto = with_multi_sig demo_sig_ops
     \<lparr>header_id = (\<lambda>h. h_block_round h + 1000), body_id = (\<lambda>_. 0),
      sc_new = (\<lambda>_ _ _. Inl DeserializeError), sc_verify = (\<lambda>_ _ _. Inl DeserializeError),
      cert_sign = (\<lambda>kp _. kp + 100), cert_verify = (\<lambda>_ _ _. False),
      tip_sign = (\<lambda>kp _. kp + 100), tip_recover = (\<lambda>sig _. Some (sig - 100))\<rparr>"

lemma demo_crypto_simps [simp]:
  "header_id demo_crypto h = h_block_round h + 1000"
  "body_id demo_crypto b = 0"
  "sc_new demo_crypto = multi_sig_new demo_sig_ops"
  "sc_verify demo_crypto = multi_sig_verify demo_sig_ops"
  "cert_sign demo_crypto kp msg = kp + 100"
  "cert_verify demo_crypto sig msg pk = (sig = pk + 100)"
  "tip_sign demo_crypto kp h = kp + 100"
  "tip_recover demo_crypto sig h = Some (sig - 100)"
  by (simp_all add: demo_crypto_def demo_sig_ops_def)

lemma demo_signature_collection: "signature_collection demo_crypto (sig_valid demo_sig_ops)"
  unfolding demo_crypto_def by (rule ms.signature_collection_axioms)

lemma demo_sig_valid [simp]: "sig_valid demo_sig_ops sig msg pk \<longleftrightarrow> sig = pk + 100"
  by (auto simp: sig_valid_def demo_sig_ops_def)

theorem multi_sig_round_trip_witness:
  "\<exists>ns. multi_sig_verify demo_sig_ops \<lparr>sigs = [107, 108]\<rparr> [(1, 7), (2, 8), (3, 9)] EmptyVoteMsg = Inr ns \<and>
    distinct ns \<and> set ns = {1, 2} \<and>
    signer_valid (sig_valid demo_sig_ops) [(1, 7), (2, 8), (3, 9)] EmptyVoteMsg 2 108"
proof -
  have wf: "vm_wf [(1, 7), (2, 8), (3, 9)]"
    by (simp add: vm_wf_def bt_wf_def)
  have new: "multi_sig_new demo_sig_ops [(2, 108), (1, 107)] [(1, 7), (2, 8), (3, 9)] EmptyVoteMsg =
      Inr \<lparr>sigs = [107, 108]\<rparr>"
    by (simp add: multi_sig_new_def multi_sig_step_simps signer_valid_def)
  show ?thesis
    using multi_sig_round_trip [OF wf new] by (auto simp: insert_commute)
qed

definition demo_qc :: "round \<Rightarrow> multi_sig quorum_certificate" where
  "demo_qc r = \<lparr>qc_info = \<lparr>v_id = 40, v_round = r, v_epoch = 3\<rparr>, qc_signatures = \<lparr>sigs = []\<rparr>\<rparr>"

definition demo_em :: epoch_manager where
  "demo_em = \<lparr>epoch_length = 100, epoch_start_delay = 20, epoch_starts = [(3, 0)]\<rparr>"

end
