(* ===== verification/Safety_Module.thy ===== *)
theory Safety_Module
  imports Certificates
begin

text \<open>
  The safety module (\<open>monad-consensus/src/validation/safety.rs\<close>): the stateful checks that keep a
  node from voting, endorsing or proposing twice. Each operation is a definition; a failed
  \<open>assert!\<close> is a panic. \<open>safety_run\<close> is any sequence of calls that do not panic, with the votes
  the node signs along the way, the ones inside timeout messages included.
\<close>

section \<open>Data\<close>

definition HANDLED_PROPOSAL_CACHE_SIZE :: nat where
  "HANDLED_PROPOSAL_CACHE_SIZE = 100"

record high_no_endorse =
  hne_round :: round
  hne_tip :: block_id

text \<open>The \<open>BTreeSet\<close> of handled rounds is its elements in increasing order.\<close>

record ('s, 'e) safety =
  maybe_high_tip :: "('s, 'e) consensus_tip option"
  high_certificate_qc_round :: round
  highest_vote :: round
  highest_no_endorse :: high_no_endorse
  highest_propose :: round
  highest_recovery_request :: round
  handled_proposals :: "round list"

section \<open>Operations\<close>

definition safety_default :: "('s, 'e) safety" where
  "safety_default =
     \<lparr>maybe_high_tip = None,
      high_certificate_qc_round = GENESIS_ROUND,
      highest_vote = GENESIS_ROUND,
      highest_no_endorse = \<lparr>hne_round = GENESIS_ROUND, hne_tip = GENESIS_BLOCK_ID\<rparr>,
      highest_propose = GENESIS_ROUND,
      highest_recovery_request = GENESIS_ROUND,
      handled_proposals = []\<rparr>"

definition safety_new ::
  "('s, 'e) round_certificate \<Rightarrow> ('s, 'e) consensus_tip option \<Rightarrow> ('s, 'e) safety panics" where
  "safety_new high_certificate high_tip = do {
     current_round \<leftarrow> round_add (round_certificate_round high_certificate) 1;
     Some \<lparr>maybe_high_tip = high_tip,
           high_certificate_qc_round = qc_round (round_certificate_qc high_certificate),
           highest_vote = current_round,
           highest_no_endorse = \<lparr>hne_round = current_round, hne_tip = GENESIS_BLOCK_ID\<rparr>,
           highest_propose = current_round,
           highest_recovery_request = current_round,
           handled_proposals = []\<rparr> }"

definition safety_process_certificate ::
  "('s, 'e) safety \<Rightarrow> ('s, 'e) round_certificate \<Rightarrow> ('s, 'e) safety" where
  "safety_process_certificate s cert =
     (let s1 = (if qc_round (round_certificate_qc cert) > high_certificate_qc_round s
                then s\<lparr>high_certificate_qc_round := qc_round (round_certificate_qc cert)\<rparr> else s)
      in case maybe_high_tip s1 of
           None \<Rightarrow> s1
         | Some tip \<Rightarrow>
             if tip_round tip \<le> high_certificate_qc_round s1 then s1\<lparr>maybe_high_tip := None\<rparr> else s1)"

definition is_safe_to_vote :: "('s, 'e) safety \<Rightarrow> round \<Rightarrow> block_id option \<Rightarrow> bool" where
  "is_safe_to_vote s r last_round_tc_tip =
     (if r = hne_round (highest_no_endorse s) \<and>
         last_round_tc_tip \<noteq> Some (hne_tip (highest_no_endorse s))
      then False else r > highest_vote s)"

definition safety_vote ::
  "('s, 'e) safety \<Rightarrow> round \<Rightarrow> block_id option \<Rightarrow> ('s, 'e) consensus_tip \<Rightarrow> ('s, 'e) safety panics" where
  "safety_vote s r last_round_tc_tip tip = do {
     rust_assert (is_safe_to_vote s r last_round_tc_tip);
     Some (s\<lparr>highest_vote := r,
             maybe_high_tip := (if tip_round tip > high_certificate_qc_round s then Some tip else None)\<rparr>) }"

definition is_safe_to_no_endorse :: "('s, 'e) safety \<Rightarrow> round \<Rightarrow> bool" where
  "is_safe_to_no_endorse s r \<longleftrightarrow> r > max (hne_round (highest_no_endorse s)) (highest_vote s)"

definition safety_no_endorse :: "('s, 'e) safety \<Rightarrow> round \<Rightarrow> block_id \<Rightarrow> ('s, 'e) safety panics" where
  "safety_no_endorse s r tip = do {
     rust_assert (is_safe_to_no_endorse s r);
     Some (s\<lparr>highest_no_endorse := \<lparr>hne_round = r, hne_tip = tip\<rparr>\<rparr>) }"

definition safety_timeout :: "('s, 'e) safety \<Rightarrow> round \<Rightarrow> ('s, 'e) safety panics" where
  "safety_timeout s r = do {
     rust_assert (r \<ge> highest_vote s);
     Some (s\<lparr>highest_vote := r\<rparr>) }"

definition is_safe_to_propose :: "('s, 'e) safety \<Rightarrow> round \<Rightarrow> bool" where
  "is_safe_to_propose s r \<longleftrightarrow> r > max (highest_propose s) (highest_vote s)"

definition safety_propose :: "('s, 'e) safety \<Rightarrow> round \<Rightarrow> ('s, 'e) safety panics" where
  "safety_propose s r = do {
     rust_assert (is_safe_to_propose s r);
     Some (s\<lparr>highest_propose := r\<rparr>) }"

definition is_safe_to_recovery_request :: "('s, 'e) safety \<Rightarrow> round \<Rightarrow> bool" where
  "is_safe_to_recovery_request s r \<longleftrightarrow> r > highest_recovery_request s"

definition safety_recovery_request :: "('s, 'e) safety \<Rightarrow> round \<Rightarrow> ('s, 'e) safety panics" where
  "safety_recovery_request s r = do {
     rust_assert (is_safe_to_recovery_request s r);
     Some (s\<lparr>highest_recovery_request := r\<rparr>) }"

definition is_safe_to_handle_proposal :: "('s, 'e) safety \<Rightarrow> round \<Rightarrow> bool" where
  "is_safe_to_handle_proposal s r \<longleftrightarrow> r \<notin> set (handled_proposals s)"

text \<open>The loop that pops the lowest rounds until the cache has its size.\<close>

fun trim_handled :: "round list \<Rightarrow> round list" where
  "trim_handled [] = []"
| "trim_handled (r # rs) =
     (if length (r # rs) > HANDLED_PROPOSAL_CACHE_SIZE then trim_handled rs else r # rs)"

definition safety_handle_proposal :: "('s, 'e) safety \<Rightarrow> round \<Rightarrow> ('s, 'e) safety panics" where
  "safety_handle_proposal s r = do {
     rust_assert (is_safe_to_handle_proposal s r);
     Some (s\<lparr>handled_proposals := trim_handled (insort r (handled_proposals s))\<rparr>) }"

section \<open>Runs of the module\<close>

datatype ('s, 'e) safety_call =
    ProcessCertificate "('s, 'e) round_certificate"
  | CastVote round "block_id option" "('s, 'e) consensus_tip"
  | NoEndorse round block_id
  | TimeOut round
  | Propose round
  | RecoveryRequest round
  | HandleProposal round

fun safety_exec :: "('s, 'e) safety \<Rightarrow> ('s, 'e) safety_call \<Rightarrow> ('s, 'e) safety panics" where
  "safety_exec s (ProcessCertificate cert) = Some (safety_process_certificate s cert)"
| "safety_exec s (CastVote r lt tip) = safety_vote s r lt tip"
| "safety_exec s (NoEndorse r b) = safety_no_endorse s r b"
| "safety_exec s (TimeOut r) = safety_timeout s r"
| "safety_exec s (Propose r) = safety_propose s r"
| "safety_exec s (RecoveryRequest r) = safety_recovery_request s r"
| "safety_exec s (HandleProposal r) = safety_handle_proposal s r"

text \<open>
  The votes a call makes the node sign, as a round and the tip voted for. \<open>Timeout::new\<close> signs a
  vote, in the round that timed out, for the high tip of the safety module.
\<close>

fun signed_votes :: "('s, 'e) safety \<Rightarrow> ('s, 'e) safety_call \<Rightarrow> (round \<times> ('s, 'e) consensus_tip) set" where
  "signed_votes s (CastVote r lt tip) = {(r, tip)}"
| "signed_votes s (TimeOut r) = (case maybe_high_tip s of None \<Rightarrow> {} | Some tip \<Rightarrow> {(r, tip)})"
| "signed_votes s _ = {}"

inductive safety_run ::
  "('s, 'e) safety \<Rightarrow> ('s, 'e) safety_call list \<Rightarrow> (round \<times> ('s, 'e) consensus_tip) set \<Rightarrow>
   ('s, 'e) safety \<Rightarrow> bool" where
  run_init: "safety_run s [] {} s"
| run_step: "\<lbrakk>safety_run s calls V s1; safety_exec s1 c = Some s2\<rbrakk> \<Longrightarrow>
    safety_run s (calls @ [c]) (V \<union> signed_votes s1 c) s2"

inductive_cases safety_run_snocE: "safety_run s (calls @ [c]) V s2"

section \<open>Lemmas\<close>

lemmas safety_defs = safety_vote_def safety_no_endorse_def safety_timeout_def safety_propose_def
  safety_recovery_request_def safety_handle_proposal_def is_safe_to_vote_def
  is_safe_to_no_endorse_def is_safe_to_propose_def is_safe_to_recovery_request_def

lemma process_certificate_simps [simp]:
  "highest_vote (safety_process_certificate s cert) = highest_vote s"
  "highest_no_endorse (safety_process_certificate s cert) = highest_no_endorse s"
  "highest_propose (safety_process_certificate s cert) = highest_propose s"
  "handled_proposals (safety_process_certificate s cert) = handled_proposals s"
  by (simp_all add: safety_process_certificate_def Let_def split: option.splits)

lemma process_certificate_tip:
  "maybe_high_tip (safety_process_certificate s cert) = None \<or>
   maybe_high_tip (safety_process_certificate s cert) = maybe_high_tip s"
  by (auto simp: safety_process_certificate_def Let_def split: option.splits)

text \<open>What every call keeps of the guards: the rounds only grow.\<close>

lemma safety_exec_mono:
  assumes "safety_exec s c = Some s'"
  shows "highest_vote s \<le> highest_vote s' \<and>
    hne_round (highest_no_endorse s) \<le> hne_round (highest_no_endorse s') \<and>
    highest_propose s \<le> highest_propose s'"
  using assms by (cases c) (auto simp: safety_defs split: if_splits)

text \<open>The node's high tip is above the QC of its high certificate.\<close>

definition safety_tip_inv :: "('s, 'e) safety \<Rightarrow> bool" where
  "safety_tip_inv s \<longleftrightarrow>
     (\<forall>tip. maybe_high_tip s = Some tip \<longrightarrow> high_certificate_qc_round s < tip_round tip)"

lemma safety_tip_inv_default: "safety_tip_inv safety_default"
  by (simp add: safety_tip_inv_def safety_default_def)

lemma safety_tip_inv_exec: "safety_tip_inv s \<Longrightarrow> safety_exec s c = Some s' \<Longrightarrow> safety_tip_inv s'"
  by (cases c)
     (auto simp: safety_tip_inv_def safety_defs safety_process_certificate_def Let_def
        split: option.splits if_splits)

text \<open>The certificate's QC round in a state is what a certificate makes it.\<close>

lemma process_certificate_qc_round:
  "high_certificate_qc_round (safety_process_certificate s cert) =
   max (high_certificate_qc_round s) (qc_round (round_certificate_qc cert))"
  by (auto simp: safety_process_certificate_def Let_def split: option.splits)

text \<open>
  The votes signed so far are consistent with the state: one tip per round, none above the highest
  vote, and in the round of the highest vote only the high tip can be signed again.
\<close>

definition votes_inv :: "('s, 'e) safety \<Rightarrow> (round \<times> ('s, 'e) consensus_tip) set \<Rightarrow> bool" where
  "votes_inv s V \<longleftrightarrow>
     (\<forall>r t t'. (r, t) \<in> V \<longrightarrow> (r, t') \<in> V \<longrightarrow> t = t') \<and>
     (\<forall>(r, t) \<in> V. r \<le> highest_vote s \<and>
        (r = highest_vote s \<longrightarrow> maybe_high_tip s = None \<or> maybe_high_tip s = Some t))"

lemma votes_inv_exec:
  assumes "votes_inv s V" and "safety_exec s c = Some s'"
  shows "votes_inv s' (V \<union> signed_votes s c)"
proof (cases c)
  case (ProcessCertificate cert)
  then have "s' = safety_process_certificate s cert"
    using assms(2) by simp
  then show ?thesis
    using assms(1) process_certificate_tip [of s cert] ProcessCertificate
    unfolding votes_inv_def by auto
next
  case (CastVote r lt tip)
  then have "highest_vote s < r" "highest_vote s' = r"
    "maybe_high_tip s' = None \<or> maybe_high_tip s' = Some tip"
    using assms(2) by (auto simp: safety_defs split: if_splits)
  then show ?thesis
    using assms(1) CastVote unfolding votes_inv_def by fastforce
next
  case (TimeOut r)
  then have "highest_vote s \<le> r" "highest_vote s' = r" "maybe_high_tip s' = maybe_high_tip s"
    using assms(2) by (auto simp: safety_defs)
  then show ?thesis
    using assms(1) TimeOut unfolding votes_inv_def
    by (cases "maybe_high_tip s") fastforce+
qed (use assms in \<open>auto simp: votes_inv_def safety_defs\<close>)

lemma votes_inv_run: "safety_run s calls V s' \<Longrightarrow> votes_inv s' V"
  by (induction rule: safety_run.induct) (auto simp: votes_inv_def [of _ "{}"] intro: votes_inv_exec)

text \<open>
  C4. Voting safety of a node: in any sequence of calls to the safety module that does not panic,
  starting from any state, the node signs votes for at most one tip per round, where the votes
  inside its timeout messages count as well.
\<close>

theorem one_vote_per_round:
  assumes "safety_run s calls V s'" and "(r, t) \<in> V" and "(r, t') \<in> V"
  shows "t = t'"
  using votes_inv_run [OF assms(1)] assms(2,3) unfolding votes_inv_def by blast

definition example_header :: "round \<Rightarrow> (unit, unit) consensus_block_header" where
  "example_header r =
     \<lparr>h_block_round = r, h_epoch = 1,
      h_qc = \<lparr>qc_info = \<lparr>v_id = 0, v_round = r - 1, v_epoch = 1\<rparr>, qc_signatures = ()\<rparr>,
      h_author = 1, h_seq_num = 1, h_timestamp_ns = 1, h_round_signature = 0,
      h_delayed_execution_results = [], h_execution_inputs = (), h_block_body_id = 0\<rparr>"

definition example_tip :: "round \<Rightarrow> (unit, unit) consensus_tip" where
  "example_tip r = \<lparr>tip_block_header = example_header r, tip_signature = 0, tip_fresh_certificate = None\<rparr>"

lemma example_vote:
  "safety_exec safety_default (CastVote 5 None (example_tip 5)) =
   Some (safety_default\<lparr>highest_vote := 5, maybe_high_tip := Some (example_tip 5)\<rparr>)"
  by (simp add: safety_defs safety_default_def example_tip_def example_header_def GENESIS_ROUND_def)

lemma example_timeout:
  "safety_exec (safety_default\<lparr>highest_vote := 5, maybe_high_tip := Some (example_tip 5)\<rparr>) (TimeOut 5) =
   Some (safety_default\<lparr>highest_vote := 5, maybe_high_tip := Some (example_tip 5)\<rparr>)"
  by (simp add: safety_defs)

theorem one_vote_per_round_witness:
  "\<exists>s1 s2. safety_exec safety_default (CastVote 5 None (example_tip 5)) = Some s1 \<and>
     safety_exec s1 (TimeOut 5) = Some s2 \<and> the (maybe_high_tip s1) = example_tip 5"
proof -
  let ?s1 = "safety_default\<lparr>highest_vote := 5, maybe_high_tip := Some (example_tip 5)\<rparr>"
  have "safety_run safety_default [CastVote 5 None (example_tip 5), TimeOut 5]
      {(5, example_tip 5), (5, the (maybe_high_tip ?s1))} ?s1"
    using run_step [OF run_step [OF run_init example_vote] example_timeout] by simp
  from one_vote_per_round [OF this, of 5 "the (maybe_high_tip ?s1)" "example_tip 5"] show ?thesis
    using example_vote example_timeout by simp
qed

text \<open>What a run records of the no-endorsements and votes made so far.\<close>

definition no_endorse_inv :: "('s, 'e) safety \<Rightarrow> ('s, 'e) safety_call list \<Rightarrow> bool" where
  "no_endorse_inv s calls \<longleftrightarrow>
     (\<forall>r b. NoEndorse r b \<in> set calls \<longrightarrow>
        r \<le> hne_round (highest_no_endorse s) \<and>
        (r = hne_round (highest_no_endorse s) \<longrightarrow> b = hne_tip (highest_no_endorse s)) \<and>
        NoEndorse (hne_round (highest_no_endorse s)) (hne_tip (highest_no_endorse s)) \<in> set calls) \<and>
     (\<forall>r lt t. CastVote r lt t \<in> set calls \<longrightarrow> r \<le> highest_vote s) \<and>
     (\<forall>r. TimeOut r \<in> set calls \<longrightarrow> r \<le> highest_vote s)"

lemma no_endorse_inv_exec:
  assumes "no_endorse_inv s calls" and "safety_exec s c = Some s'"
  shows "no_endorse_inv s' (calls @ [c])"
  using assms by (cases c) (fastforce simp: no_endorse_inv_def safety_defs split: if_splits)+

lemma no_endorse_inv_run: "safety_run s calls V s' \<Longrightarrow> no_endorse_inv s' calls"
  by (induction rule: safety_run.induct)
     (auto simp: no_endorse_inv_def [of _ "[]"] intro: no_endorse_inv_exec)

text \<open>
  C20. Votes and no-endorsements exclude each other: in any run of the safety module the node sends
  no second no-endorsement for a round, nor one for a round not above a vote or timeout it made;
  and in the round of its latest no-endorsement, about tip \<open>b\<close>, it votes only on a proposal whose
  last-round TC carries that very tip.
\<close>

theorem no_endorse_vote_exclusive:
  assumes "safety_run s calls V s1" and "safety_exec s1 c = Some s2"
  shows "case c of
      NoEndorse r b \<Rightarrow>
        (\<forall>b'. NoEndorse r b' \<notin> set calls) \<and>
        (\<forall>r' lt t. CastVote r' lt t \<in> set calls \<longrightarrow> r' < r) \<and> (\<forall>r'. TimeOut r' \<in> set calls \<longrightarrow> r' < r)
    | CastVote r lt t \<Rightarrow>
        (\<forall>b. NoEndorse r b \<in> set calls \<longrightarrow> (\<forall>r' b'. NoEndorse r' b' \<in> set calls \<longrightarrow> r' \<le> r) \<longrightarrow> lt = Some b)
    | _ \<Rightarrow> True"
proof (cases c)
  case (NoEndorse r b)
  then have "max (hne_round (highest_no_endorse s1)) (highest_vote s1) < r"
    using assms(2) by (simp add: safety_defs)
  then show ?thesis
    using no_endorse_inv_run [OF assms(1)] NoEndorse
    by (fastforce simp: no_endorse_inv_def)
next
  case (CastVote r lt t)
  then have vote: "r = hne_round (highest_no_endorse s1) \<longrightarrow> lt = Some (hne_tip (highest_no_endorse s1))"
    using assms(2) by (auto simp: safety_defs split: if_splits)
  have "lt = Some b"
    if ne: "NoEndorse r b \<in> set calls" and top: "\<forall>r' b'. NoEndorse r' b' \<in> set calls \<longrightarrow> r' \<le> r" for b
  proof -
    have "r = hne_round (highest_no_endorse s1) \<and> b = hne_tip (highest_no_endorse s1)"
      using no_endorse_inv_run [OF assms(1)] ne top unfolding no_endorse_inv_def
      by (metis order_antisym)
    then show ?thesis
      using vote by simp
  qed
  then show ?thesis
    using CastVote by simp
qed simp_all

theorem no_endorse_vote_exclusive_witness:
  "\<exists>lt s1 s2. safety_run safety_default [NoEndorse 5 77] {} s1 \<and>
     safety_exec s1 (CastVote 5 lt (example_tip 5)) = Some s2 \<and> lt = Some 77"
proof -
  let ?s1 = "safety_default\<lparr>highest_no_endorse := \<lparr>hne_round = 5, hne_tip = 77\<rparr>\<rparr> :: (unit, unit) safety"
  let ?s2 = "?s1\<lparr>highest_vote := 5, maybe_high_tip := Some (example_tip 5)\<rparr>"
  have ne: "safety_exec safety_default (NoEndorse 5 77) = Some ?s1"
    by (simp add: safety_defs safety_default_def GENESIS_ROUND_def)
  have run: "safety_run safety_default [NoEndorse 5 77] {} ?s1"
    using run_step [OF run_init ne] by simp
  have vote: "safety_exec ?s1 (CastVote 5 (Some 77) (example_tip 5)) = Some ?s2"
    by (simp add: safety_defs safety_default_def example_tip_def example_header_def GENESIS_ROUND_def)
  from no_endorse_vote_exclusive [OF run vote] run vote show ?thesis
    by (intro exI [of _ "Some 77"] exI [of _ ?s1] exI [of _ ?s2]) simp
qed

section \<open>The cache of handled proposals\<close>

lemma trim_handled_eq:
  "trim_handled rs = drop (length rs - HANDLED_PROPOSAL_CACHE_SIZE) rs"
  by (induction rs) (auto simp: drop_Cons' Suc_diff_le not_less)

text \<open>
  C36. \<open>handle_proposal\<close> keeps the handled rounds strictly sorted and at most
  \<open>HANDLED_PROPOSAL_CACHE_SIZE\<close> many, and forgets only the lowest: a round it drops is below
  every round it keeps.
\<close>

theorem handle_proposal_cache:
  assumes "sorted_wrt (<) (handled_proposals s)" and "safety_handle_proposal s r = Some s'"
  shows "sorted_wrt (<) (handled_proposals s') \<and>
    length (handled_proposals s') \<le> HANDLED_PROPOSAL_CACHE_SIZE \<and>
    set (handled_proposals s') \<subseteq> insert r (set (handled_proposals s)) \<and>
    (\<forall>x \<in> insert r (set (handled_proposals s)) - set (handled_proposals s').
       length (handled_proposals s') = HANDLED_PROPOSAL_CACHE_SIZE \<and> (\<forall>y \<in> set (handled_proposals s'). x < y))"
proof -
  let ?l = "insort r (handled_proposals s)" and ?n = "HANDLED_PROPOSAL_CACHE_SIZE"
  have new: "r \<notin> set (handled_proposals s)"
    and s': "handled_proposals s' = drop (length ?l - ?n) ?l"
    using assms(2) by (auto simp: safety_handle_proposal_def is_safe_to_handle_proposal_def trim_handled_eq)
  have sorted: "sorted_wrt (<) ?l"
    using assms(1) new by (simp add: strict_sorted_iff sorted_insort distinct_insort)
  let ?d = "take (length ?l - ?n) ?l"
  have split: "?l = ?d @ handled_proposals s'"
    by (simp add: s')
  then have "sorted_wrt (<) (?d @ handled_proposals s')"
    using sorted by simp
  then have low: "\<forall>x \<in> set ?d. \<forall>y \<in> set (handled_proposals s'). x < y"
    and srt: "sorted_wrt (<) (handled_proposals s')"
    unfolding sorted_wrt_append by blast+
  have set: "insert r (set (handled_proposals s)) = set ?d \<union> set (handled_proposals s')"
    using arg_cong [OF split, of set] by (simp only: set_append set_insort_key)
  have len: "length (handled_proposals s') = min (length ?l) ?n"
    by (simp add: s')
  have full: "length (handled_proposals s') = ?n" if "x \<in> set ?d" for x
    using that len by (cases "length ?l \<le> ?n") auto
  show ?thesis
    unfolding set using srt len low full by auto
qed

theorem handle_proposal_cache_witness:
  "handled_proposals (safety_default\<lparr>handled_proposals := [3, 7]\<rparr> :: (unit, unit) safety) = [3, 7] \<and>
   (\<exists>s'. safety_handle_proposal (safety_default\<lparr>handled_proposals := [3, 7]\<rparr> :: (unit, unit) safety) 5 = Some s' \<and>
      sorted_wrt (<) (handled_proposals s'))"
proof -
  let ?s = "safety_default\<lparr>handled_proposals := [3, 7]\<rparr> :: (unit, unit) safety"
  have "safety_handle_proposal ?s 5 = Some (?s\<lparr>handled_proposals := [3, 5, 7]\<rparr>)"
    by (simp add: safety_handle_proposal_def is_safe_to_handle_proposal_def HANDLED_PROPOSAL_CACHE_SIZE_def)
  moreover from handle_proposal_cache [OF _ this] have "sorted_wrt (<) [3, 5, 7::nat]"
    by simp
  ultimately show ?thesis
    by simp
qed

end
