(* ===== verification/Votes.thy ===== *)
theory Votes
  imports SigCollection
begin

text \<open>
  The accumulation of votes into quorum certificates (\<open>VoteState\<close>,
  \<open>monad-consensus/src/vote_state.rs\<close>) and of no-endorsements into no-endorsement certificates
  (\<open>NoEndorsementState\<close>, \<open>no_endorsement_state.rs\<close>). Both run the same loop: as long as the
  signers form a super majority, build the signature collection, and drop the signers whose
  signatures it reports invalid.
\<close>

section \<open>Data\<close>

record vote_message =
  vmsg_vote :: vote
  vmsg_sig :: signature

record no_endorsement_message =
  nemsg_msg :: no_endorsement
  nemsg_signature :: signature

record round_vote_state =
  rvs_pending_votes :: "(vote \<times> (node_id \<times> signature) list) list"
  rvs_node_votes :: "(node_id \<times> signature set) list"

record vote_state =
  vst_pending_votes :: "(round \<times> round_vote_state) list"
  vst_earliest_round :: round

record 's round_no_endorsement_state =
  rne_qc_round_no_endorsements :: "(round \<times> (node_id \<times> signature) list) list"
  rne_node_no_endorsements :: "(node_id \<times> signature set) list"
  rne_certificate :: "'s no_endorsement_certificate option"

record 's no_endorsement_state =
  nest_pending_no_endorsements :: "(round \<times> 's round_no_endorsement_state) list"
  nest_earliest_round :: round

section \<open>Operations\<close>

definition handle_invalid_vote ::
  "(node_id \<times> signature) list \<Rightarrow> (node_id \<times> signature) list \<Rightarrow> (node_id \<times> signature) list" where
  "handle_invalid_vote pending_entry invalid_votes =
     bt_retain (\<lambda>node_id _. node_id \<notin> fst ` set invalid_votes) pending_entry"

text \<open>
  The \<open>while\<close> loop of \<open>process_vote\<close>: the pending entry it leaves and the collection it builds, if
  any. It may not end for an arbitrary signature collection, so not returning is \<open>None\<close>, as a
  panic is.
\<close>

partial_function (option) aggregate_loop ::
  "('s, 'e) crypto \<Rightarrow> validator_set \<Rightarrow> validator_mapping \<Rightarrow> sc_msg \<Rightarrow> (node_id \<times> signature) list \<Rightarrow>
   ((node_id \<times> signature) list \<times> 's option) option" where
  "aggregate_loop C vs vm msg pending =
     (case has_super_majority_votes vs (map fst pending) of
        Some (Inr super_majority) \<Rightarrow>
          if super_majority then
            (case sc_new C pending vm msg of
               Inr sigcol \<Rightarrow> Some (pending, Some sigcol)
             | Inl (InvalidSignaturesCreate invalid_sigs) \<Rightarrow>
                 aggregate_loop C vs vm msg (handle_invalid_vote pending invalid_sigs)
             | Inl _ \<Rightarrow> None)
          else Some (pending, None)
      | _ \<Rightarrow> None)"

definition vote_state_new :: "round \<Rightarrow> vote_state" where
  "vote_state_new r = \<lparr>vst_pending_votes = [], vst_earliest_round = r\<rparr>"

definition round_vote_state_default :: round_vote_state where
  "round_vote_state_default = \<lparr>rvs_pending_votes = [], rvs_node_votes = []\<rparr>"

text \<open>The pending entry a vote is added to, and the round state with it stored back.\<close>

definition add_pending_vote ::
  "vote_state \<Rightarrow> node_id \<Rightarrow> vote_message \<Rightarrow> (node_id \<times> signature) list" where
  "add_pending_vote st author msg =
     (let rs = get_or round_vote_state_default (vst_pending_votes st) (v_round (vmsg_vote msg))
      in bt_insert author (vmsg_sig msg) (get_or [] (rvs_pending_votes rs) (vmsg_vote msg)))"

definition store_pending_vote ::
  "vote_state \<Rightarrow> node_id \<Rightarrow> vote_message \<Rightarrow> (node_id \<times> signature) list \<Rightarrow> vote_state" where
  "store_pending_vote st author msg pending =
     (let r = v_round (vmsg_vote msg);
          rs = get_or round_vote_state_default (vst_pending_votes st) r;
          node_votes = insert (vmsg_sig msg) (get_or {} (rvs_node_votes rs) author)
      in st\<lparr>vst_pending_votes := bt_insert r
             (rs\<lparr>rvs_node_votes := AList.update author node_votes (rvs_node_votes rs),
                 rvs_pending_votes := AList.update (vmsg_vote msg) pending (rvs_pending_votes rs)\<rparr>)
             (vst_pending_votes st)\<rparr>)"

definition process_vote ::
  "('s, 'e) crypto \<Rightarrow> vote_state \<Rightarrow> node_id \<Rightarrow> vote_message \<Rightarrow> validator_set \<Rightarrow> validator_mapping \<Rightarrow>
   (vote_state \<times> 's quorum_certificate option) panics" where
  "process_vote C st author msg vs vm =
     (let v = vmsg_vote msg
      in if v_round v < vst_earliest_round st then Some (st, None)
         else do {
           (pending, res) \<leftarrow> aggregate_loop C vs vm (VoteMsg v) (add_pending_vote st author msg);
           let st' = store_pending_vote st author msg pending;
           (case res of
              None \<Rightarrow> Some (st', None)
            | Some sigcol \<Rightarrow> do {
                e \<leftarrow> round_add (v_round v) 1;
                Some (st'\<lparr>vst_earliest_round := e\<rparr>, Some \<lparr>qc_info = v, qc_signatures = sigcol\<rparr>) }) })"

definition vote_state_start_new_round :: "vote_state \<Rightarrow> round \<Rightarrow> vote_state" where
  "vote_state_start_new_round st new_round =
     st\<lparr>vst_earliest_round := new_round,
        vst_pending_votes := bt_retain (\<lambda>k _. k \<ge> new_round) (vst_pending_votes st)\<rparr>"

definition no_endorsement_state_new :: "round \<Rightarrow> 's no_endorsement_state" where
  "no_endorsement_state_new r = \<lparr>nest_pending_no_endorsements = [], nest_earliest_round = r\<rparr>"

definition round_no_endorsement_state_default :: "'s round_no_endorsement_state" where
  "round_no_endorsement_state_default =
     \<lparr>rne_qc_round_no_endorsements = [], rne_node_no_endorsements = [], rne_certificate = None\<rparr>"

definition process_no_endorsement ::
  "('s, 'e) crypto \<Rightarrow> 's no_endorsement_state \<Rightarrow> node_id \<Rightarrow> no_endorsement_message \<Rightarrow>
   validator_set \<Rightarrow> validator_mapping \<Rightarrow>
   ('s no_endorsement_state \<times> 's no_endorsement_certificate option) panics" where
  "process_no_endorsement C st author msg vs vm =
     (let ne = nemsg_msg msg; r = ne_round ne
      in if r < nest_earliest_round st then Some (st, None)
         else let
           rs = get_or round_no_endorsement_state_default (nest_pending_no_endorsements st) r;
           node_votes = insert (nemsg_signature msg) (get_or {} (rne_node_no_endorsements rs) author);
           pending0 = bt_insert author (nemsg_signature msg)
             (get_or [] (rne_qc_round_no_endorsements rs) (ne_tip_qc_round ne))
         in do {
           (pending, res) \<leftarrow> aggregate_loop C vs vm (NoEndorsementMsg ne) pending0;
           let rs' = rs\<lparr>rne_node_no_endorsements := AList.update author node_votes (rne_node_no_endorsements rs),
                        rne_qc_round_no_endorsements :=
                          AList.update (ne_tip_qc_round ne) pending (rne_qc_round_no_endorsements rs)\<rparr>;
           (case res of
              None \<Rightarrow>
                Some (st\<lparr>nest_pending_no_endorsements := bt_insert r rs' (nest_pending_no_endorsements st)\<rparr>, None)
            | Some sigcol \<Rightarrow> do {
                let nec = \<lparr>nec_msg = ne, nec_signatures = sigcol\<rparr>;
                e \<leftarrow> round_add r 1;
                rust_assert (rne_certificate rs' = None);
                Some (st\<lparr>nest_earliest_round := e,
                         nest_pending_no_endorsements :=
                           bt_insert r (rs'\<lparr>rne_certificate := Some nec\<rparr>) (nest_pending_no_endorsements st)\<rparr>,
                      Some nec) }) })"

definition no_endorsement_state_start_new_round ::
  "'s no_endorsement_state \<Rightarrow> round \<Rightarrow> 's no_endorsement_state" where
  "no_endorsement_state_start_new_round st new_round =
     st\<lparr>nest_earliest_round := new_round,
        nest_pending_no_endorsements := bt_retain (\<lambda>k _. k \<ge> new_round) (nest_pending_no_endorsements st)\<rparr>"

definition get_nec :: "'s no_endorsement_state \<Rightarrow> round \<Rightarrow> 's no_endorsement_certificate option" where
  "get_nec st r = do { state \<leftarrow> map_of (nest_pending_no_endorsements st) r; rne_certificate state }"

section \<open>The aggregation loop\<close>

text \<open>
  What the loop gives back: it drops only signers without a valid signature, and ends with a
  collection over all the signers left exactly when they are a super majority.
\<close>

definition aggregate_ok ::
  "('s, 'e) crypto \<Rightarrow> (signature \<Rightarrow> sc_msg \<Rightarrow> cert_pubkey \<Rightarrow> bool) \<Rightarrow> validator_set \<Rightarrow>
   validator_mapping \<Rightarrow> sc_msg \<Rightarrow> (node_id \<times> signature) list \<Rightarrow>
   (node_id \<times> signature) list \<Rightarrow> 's option \<Rightarrow> bool" where
  "aggregate_ok C valid vs vm msg pending pending' res \<longleftrightarrow>
     bt_wf pending' \<and> set pending' \<subseteq> set pending \<and>
     (\<forall>(n, sig) \<in> set pending - set pending'. \<not> signer_valid valid vm msg n sig) \<and>
     is_quorum vs (map fst pending') = (res \<noteq> None) \<and>
     (\<forall>sigcol. res = Some sigcol \<longrightarrow> sc_new C pending' vm msg = Inr sigcol)"

lemma handle_invalid_vote_set:
  "set (handle_invalid_vote pending bad) = {(n, sig) \<in> set pending. n \<notin> fst ` set bad}"
  by (auto simp: handle_invalid_vote_def bt_retain_def)

lemma bt_wf_handle_invalid_vote [simp]: "bt_wf pending \<Longrightarrow> bt_wf (handle_invalid_vote pending bad)"
  by (simp add: handle_invalid_vote_def)

context signature_collection
begin

lemma handle_invalid_vote_removes:
  assumes "bt_wf pending" and "sc_new C pending vm msg = Inl (InvalidSignaturesCreate bad)"
  shows "set (handle_invalid_vote pending bad) \<subset> set pending"
    and "\<forall>(n, sig) \<in> set pending - set (handle_invalid_vote pending bad). \<not> signer_valid valid vm msg n sig"
proof -
  have bad: "bad \<noteq> []" "\<And>n sig. (n, sig) \<in> set bad \<Longrightarrow> (n, sig) \<in> set pending \<and> \<not> signer_valid valid vm msg n sig"
    using new_invalid [OF assms(2)] by auto
  have "hd bad \<in> set bad"
    using bad(1) by simp
  then have "hd bad \<in> set pending - set (handle_invalid_vote pending bad)"
    using bad(2) [of "fst (hd bad)" "snd (hd bad)"] by (auto simp: handle_invalid_vote_set case_prod_beta)
  moreover have "set (handle_invalid_vote pending bad) \<subseteq> set pending"
    by (auto simp: handle_invalid_vote_set)
  ultimately show "set (handle_invalid_vote pending bad) \<subset> set pending"
    by blast
  show "\<forall>(n, sig) \<in> set pending - set (handle_invalid_vote pending bad). \<not> signer_valid valid vm msg n sig"
    using bad(2) bt_wf_functional [OF assms(1)] by (fastforce simp: handle_invalid_vote_set)
qed

lemma aggregate_loop_total:
  assumes "vs_wf vs" and "bt_wf pending" and "fst ` set pending \<subseteq> fst ` set vm"
  shows "\<exists>pending' res. aggregate_loop C vs vm msg pending = Some (pending', res) \<and>
    aggregate_ok C valid vs vm msg pending pending' res"
  using assms(2,3)
proof (induction "card (set pending)" arbitrary: pending rule: less_induct)
  case less
  have d: "distinct (map fst pending)"
    using less.prems(1) by (rule bt_wf_distinct)
  note majority = has_super_majority_votes_total [OF assms(1) d]
  show ?case
  proof (cases "is_quorum vs (map fst pending)")
    case False
    then show ?thesis
      using majority less.prems(1) by (subst aggregate_loop.simps) (simp add: aggregate_ok_def)
  next
    case True
    show ?thesis
    proof (cases "sc_new C pending vm msg")
      case (Inr sigcol)
      then show ?thesis
        using True majority less.prems(1) by (subst aggregate_loop.simps) (simp add: aggregate_ok_def)
    next
      case (Inl e)
      then obtain bad where e: "sc_new C pending vm msg = Inl (InvalidSignaturesCreate bad)"
        using new_error [OF d less.prems(2)] by blast
      let ?p = "handle_invalid_vote pending bad"
      note removes = handle_invalid_vote_removes [OF less.prems(1) e]
      have "card (set ?p) < card (set pending)" "fst ` set ?p \<subseteq> fst ` set vm" "bt_wf ?p"
        using psubset_card_mono [OF _ removes(1)] less.prems removes(1) by (simp, blast, simp)
      then obtain pending' res where r: "aggregate_loop C vs vm msg ?p = Some (pending', res)"
        and ok: "aggregate_ok C valid vs vm msg ?p pending' res"
        using less.hyps [of ?p] by blast
      have "aggregate_loop C vs vm msg pending = Some (pending', res)"
        using True majority e r by (subst aggregate_loop.simps) simp
      moreover have "aggregate_ok C valid vs vm msg pending pending' res"
        using ok removes unfolding aggregate_ok_def by blast
      ultimately show ?thesis
        by blast
    qed
  qed
qed

end

section \<open>Votes\<close>

definition vote_state_wf :: "vote_state \<Rightarrow> bool" where
  "vote_state_wf st \<longleftrightarrow> bt_wf (vst_pending_votes st) \<and>
     (\<forall>(r, rs) \<in> set (vst_pending_votes st). hm_wf (rvs_pending_votes rs) \<and>
        (\<forall>(v, m) \<in> set (rvs_pending_votes rs). bt_wf m \<and> v_round v = r))"

lemma vote_state_wf_new [simp]: "vote_state_wf (vote_state_new r)"
  by (simp add: vote_state_wf_def vote_state_new_def)

lemma round_state_wf:
  assumes "vote_state_wf st" and "rs = get_or round_vote_state_default (vst_pending_votes st) r"
  shows "hm_wf (rvs_pending_votes rs) \<and> (\<forall>(v, m) \<in> set (rvs_pending_votes rs). bt_wf m \<and> v_round v = r)"
  using get_or_cases [of round_vote_state_default "vst_pending_votes st" r] assms
  by (auto simp: vote_state_wf_def round_vote_state_default_def hm_wf_def)

lemma bt_wf_add_pending_vote [simp]:
  assumes "vote_state_wf st"
  shows "bt_wf (add_pending_vote st author msg)"
proof -
  let ?rs = "get_or round_vote_state_default (vst_pending_votes st) (v_round (vmsg_vote msg))"
  have "bt_wf (get_or [] (rvs_pending_votes ?rs) (vmsg_vote msg))"
    using get_or_cases [of "[]" "rvs_pending_votes ?rs" "vmsg_vote msg"] round_state_wf [OF assms refl]
    by force
  then show ?thesis
    by (simp add: add_pending_vote_def Let_def)
qed

lemma store_pending_vote_wf:
  assumes "vote_state_wf st" and "bt_wf pending"
  shows "vote_state_wf (store_pending_vote st author msg pending)"
  using assms(1) round_state_wf [OF assms(1) refl, of "v_round (vmsg_vote msg)"] assms(2)
  by (fastforce simp: vote_state_wf_def store_pending_vote_def Let_def hm.wf_ins
      dest!: in_set_bt_insert in_set_update)

lemma start_new_round_wf: "vote_state_wf st \<Longrightarrow> vote_state_wf (vote_state_start_new_round st r)"
  by (auto simp: vote_state_wf_def vote_state_start_new_round_def bt_retain_def)

text \<open>The pending signers of a vote that have a valid signature.\<close>

definition valid_signers ::
  "(signature \<Rightarrow> sc_msg \<Rightarrow> cert_pubkey \<Rightarrow> bool) \<Rightarrow> validator_mapping \<Rightarrow> sc_msg \<Rightarrow>
   (node_id \<times> signature) list \<Rightarrow> node_id list" where
  "valid_signers valid vm msg pending =
     map fst (filter (\<lambda>(n, sig). \<exists>pk. map_of vm n = Some pk \<and> valid sig msg pk) pending)"

lemma valid_signers_kept:
  assumes "aggregate_ok C valid vs vm msg pending pending' res"
  shows "set (valid_signers valid vm msg pending) \<subseteq> fst ` set pending'"
  using assms by (force simp: aggregate_ok_def valid_signers_def signer_valid_def)

lemma aggregate_ok_complete:
  assumes "aggregate_ok C valid vs vm msg pending pending' res" and "vs_wf vs"
    and "is_quorum vs (valid_signers valid vm msg pending)"
  shows "res \<noteq> None"
proof -
  have "is_quorum vs (map fst pending')"
    using assms(2,3) by (rule is_quorum_mono)
      (use valid_signers_kept [OF assms(1)] assms(1) in \<open>auto simp: aggregate_ok_def bt_wf_distinct\<close>)
  then show ?thesis
    using assms(1) by (simp add: aggregate_ok_def)
qed

text \<open>
  C16. \<open>process_vote\<close> on a vote for a round that is not stale returns (its loop ends and no
  \<open>unreachable!\<close> is reached) whenever the signature collection keeps its contract and the pending
  voters are in the key mapping. A certificate it returns is for that vote, over the valid signatures of a
  super majority, and moves the earliest accepted round past it; one is returned as soon as the
  voters with valid signatures are a super majority.
\<close>

theorem process_vote_correct:
  assumes "signature_collection C valid" and "vs_wf vs" and "vote_state_wf st"
    and "vst_earliest_round st \<le> v_round (vmsg_vote msg)" and "v_round (vmsg_vote msg) < u64_max"
    and "fst ` set (add_pending_vote st author msg) \<subseteq> fst ` set vm"
  shows "\<exists>st' res. process_vote C st author msg vs vm = Some (st', res) \<and> vote_state_wf st' \<and>
    (\<forall>qc. res = Some qc \<longrightarrow> qc_info qc = vmsg_vote msg \<and>
       vst_earliest_round st' = v_round (vmsg_vote msg) + 1 \<and>
       (\<exists>ss. set ss \<subseteq> set (add_pending_vote st author msg) \<and> is_quorum vs (map fst ss) \<and>
          (\<forall>(n, sig) \<in> set ss. signer_valid valid vm (VoteMsg (vmsg_vote msg)) n sig) \<and>
          sc_new C ss vm (VoteMsg (vmsg_vote msg)) = Inr (qc_signatures qc))) \<and>
    (is_quorum vs (valid_signers valid vm (VoteMsg (vmsg_vote msg)) (add_pending_vote st author msg)) \<longrightarrow>
       res \<noteq> None)"
proof -
  let ?m = "VoteMsg (vmsg_vote msg)" and ?p = "add_pending_vote st author msg"
  obtain ss res where l: "aggregate_loop C vs vm ?m ?p = Some (ss, res)"
    and ok: "aggregate_ok C valid vs vm ?m ?p ss res"
    using signature_collection.aggregate_loop_total [OF assms(1,2) bt_wf_add_pending_vote [OF assms(3)] assms(6)]
    by blast
  have wf: "vote_state_wf (store_pending_vote st author msg ss)"
    using assms(3) ok by (intro store_pending_vote_wf) (simp_all add: aggregate_ok_def)
  show ?thesis
  proof (cases res)
    case None
    then show ?thesis
      using l assms(4) wf aggregate_ok_complete [OF ok assms(2)]
      by (auto simp: process_vote_def Let_def not_less)
  next
    case (Some sigcol)
    have q: "is_quorum vs (map fst ss)" "sc_new C ss vm ?m = Inr sigcol" "set ss \<subseteq> set ?p"
      using ok Some by (simp_all add: aggregate_ok_def)
    have v: "\<forall>(n, sig) \<in> set ss. signer_valid valid vm ?m n sig"
      using signature_collection.new_sound [OF assms(1) q(2)] by blast
    have "process_vote C st author msg vs vm = Some
        ((store_pending_vote st author msg ss)\<lparr>vst_earliest_round := v_round (vmsg_vote msg) + 1\<rparr>,
         Some \<lparr>qc_info = vmsg_vote msg, qc_signatures = sigcol\<rparr>)"
      using l Some assms(4,5) by (simp add: process_vote_def Let_def not_less round_add_def checked_add_u64_def)
    then show ?thesis
      using wf q v by (auto simp: vote_state_wf_def)
  qed
qed

definition example_vote_message :: "round \<Rightarrow> vote_message" where
  "example_vote_message r = \<lparr>vmsg_vote = \<lparr>v_id = 42, v_round = r, v_epoch = 3\<rparr>, vmsg_sig = 107\<rparr>"

theorem process_vote_correct_witness:
  "\<exists>st' qc. process_vote demo_crypto (vote_state_new 5) 2 (example_vote_message 6) solo_vs [(2, 7)] =
     Some (st', Some qc) \<and> qc_info qc = \<lparr>v_id = 42, v_round = 6, v_epoch = 3\<rparr> \<and> vst_earliest_round st' = 7"
proof -
  have add: "add_pending_vote (vote_state_new 5) 2 (example_vote_message 6) = [(2, 107)]"
    by (simp add: add_pending_vote_def vote_state_new_def get_or_def round_vote_state_default_def
        example_vote_message_def)
  have q: "is_quorum solo_vs
      (valid_signers (sig_valid demo_sig_ops) [(2, 7)] (VoteMsg (vmsg_vote (example_vote_message 6))) [(2, 107)])"
    using solo_quorum by (simp add: valid_signers_def)
  obtain st' res where p: "process_vote demo_crypto (vote_state_new 5) 2 (example_vote_message 6) solo_vs [(2, 7)] =
      Some (st', res)"
    and r: "\<forall>qc. res = Some qc \<longrightarrow> qc_info qc = vmsg_vote (example_vote_message 6) \<and>
      vst_earliest_round st' = v_round (vmsg_vote (example_vote_message 6)) + 1" and "res \<noteq> None"
    using process_vote_correct [OF demo_signature_collection solo_vs_wf vote_state_wf_new,
        of 5 "example_vote_message 6" 2 "[(2, 7)]", unfolded add] q
    by (auto simp: vote_state_new_def example_vote_message_def)
  then show ?thesis
    by (auto simp: example_vote_message_def)
qed

text \<open>A sequence of votes, each with the validators of its epoch, and the certificates built.\<close>

fun process_votes ::
  "('s, 'e) crypto \<Rightarrow> vote_state \<Rightarrow> (node_id \<times> vote_message \<times> validator_set \<times> validator_mapping) list \<Rightarrow>
   (vote_state \<times> 's quorum_certificate list) panics" where
  "process_votes C st [] = Some (st, [])"
| "process_votes C st ((author, msg, vs, vm) # votes) = do {
     (st', res) \<leftarrow> process_vote C st author msg vs vm;
     (st'', qcs) \<leftarrow> process_votes C st' votes;
     Some (st'', (case res of None \<Rightarrow> qcs | Some qc \<Rightarrow> qc # qcs)) }"

lemma process_vote_earliest:
  assumes "process_vote C st author msg vs vm = Some (st', res)"
  shows "vst_earliest_round st \<le> vst_earliest_round st' \<and>
    (\<forall>qc. res = Some qc \<longrightarrow> vst_earliest_round st \<le> qc_round qc \<and> qc_round qc < vst_earliest_round st')"
  using assms
  by (auto simp: process_vote_def store_pending_vote_def Let_def
      split: if_splits Option.bind_splits option.splits prod.splits)

lemma process_votes_earliest:
  "process_votes C st votes = Some (st', qcs) \<Longrightarrow>
   vst_earliest_round st \<le> vst_earliest_round st' \<and> (\<forall>qc \<in> set qcs. vst_earliest_round st \<le> qc_round qc)"
proof (induction votes arbitrary: st qcs)
  case (Cons x votes)
  obtain author msg vs vm where x: "x = (author, msg, vs, vm)"
    by (cases x)
  from Cons.prems obtain st1 res qcs1 where p: "process_vote C st author msg vs vm = Some (st1, res)"
    "process_votes C st1 votes = Some (st', qcs1)" "qcs = (case res of None \<Rightarrow> qcs1 | Some qc \<Rightarrow> qc # qcs1)"
    by (auto simp: x split: Option.bind_splits)
  then show ?case
    using Cons.IH [OF p(2)] process_vote_earliest [OF p(1)] by (cases res) auto
qed simp

text \<open>
  C27. \<open>VoteState\<close> never builds two certificates for one round: along any sequence of votes the rounds
  of the certificates it returns strictly increase.
\<close>

theorem one_qc_per_round:
  assumes "process_votes C st votes = Some (st', qcs)"
  shows "sorted_wrt (\<lambda>a b. qc_round a < qc_round b) qcs"
  using assms
proof (induction votes arbitrary: st qcs)
  case (Cons x votes)
  obtain author msg vs vm where x: "x = (author, msg, vs, vm)"
    by (cases x)
  from Cons.prems obtain st1 res qcs1 where p: "process_vote C st author msg vs vm = Some (st1, res)"
    "process_votes C st1 votes = Some (st', qcs1)" "qcs = (case res of None \<Rightarrow> qcs1 | Some qc \<Rightarrow> qc # qcs1)"
    by (auto simp: x split: Option.bind_splits)
  then show ?case
    using Cons.IH [OF p(2)] process_votes_earliest [OF p(2)] process_vote_earliest [OF p(1)]
    by (cases res) fastforce+
qed simp

lemma aggregate_loop_solo:
  "aggregate_loop demo_crypto solo_vs [(2, 7)] msg [(2, 107)] = Some ([(2, 107)], Some \<lparr>sigs = [107]\<rparr>)"
  using solo_quorum
  by (subst aggregate_loop.simps)
     (simp add: is_quorum_def multi_sig_new_def multi_sig_step_simps signer_valid_def)

theorem one_qc_per_round_witness:
  "\<exists>st' qcs. process_votes demo_crypto (vote_state_new 5)
      [(2, example_vote_message 6, solo_vs, [(2, 7)]), (2, example_vote_message 6, solo_vs, [(2, 7)]),
       (2, example_vote_message 8, solo_vs, [(2, 7)])] = Some (st', qcs) \<and>
     map qc_round qcs = [6, 8] \<and> sorted_wrt (\<lambda>a b. qc_round a < qc_round b) qcs"
proof -
  let ?votes = "[(2, example_vote_message 6, solo_vs, [(2, 7)]), (2, example_vote_message 6, solo_vs, [(2, 7)]),
    (2, example_vote_message 8, solo_vs, [(2, 7)])]"
  have "\<exists>st' qcs. process_votes demo_crypto (vote_state_new 5) ?votes = Some (st', qcs) \<and> map qc_round qcs = [6, 8]"
    by (simp add: process_vote_def add_pending_vote_def store_pending_vote_def vote_state_new_def
        get_or_def round_vote_state_default_def example_vote_message_def aggregate_loop_solo
        Let_def round_add_def checked_add_u64_def)
  then obtain st' qcs where "process_votes demo_crypto (vote_state_new 5) ?votes = Some (st', qcs)"
    and "map qc_round qcs = [6, 8]"
    by (elim exE conjE)
  moreover from this have "sorted_wrt (\<lambda>a b. qc_round a < qc_round b) qcs"
    by (intro one_qc_per_round)
  ultimately show ?thesis
    by (intro exI conjI)
qed

section \<open>No-endorsements\<close>

text \<open>
  The invariant of the no-endorsement state; the last conjunct, that no certificate exists yet for
  a round still accepted, is what the \<open>assert!\<close> in \<open>process_no_endorsement\<close> checks.
\<close>

definition ne_state_wf :: "'s no_endorsement_state \<Rightarrow> bool" where
  "ne_state_wf st \<longleftrightarrow> bt_wf (nest_pending_no_endorsements st) \<and>
     (\<forall>(r, rs) \<in> set (nest_pending_no_endorsements st).
        (\<forall>(q, m) \<in> set (rne_qc_round_no_endorsements rs). bt_wf m) \<and>
        (nest_earliest_round st \<le> r \<longrightarrow> rne_certificate rs = None))"

definition add_pending_no_endorsement ::
  "'s no_endorsement_state \<Rightarrow> node_id \<Rightarrow> no_endorsement_message \<Rightarrow> (node_id \<times> signature) list" where
  "add_pending_no_endorsement st author msg =
     bt_insert author (nemsg_signature msg)
       (get_or [] (rne_qc_round_no_endorsements
          (get_or round_no_endorsement_state_default (nest_pending_no_endorsements st) (ne_round (nemsg_msg msg))))
          (ne_tip_qc_round (nemsg_msg msg)))"

lemma ne_state_wf_new [simp]: "ne_state_wf (no_endorsement_state_new r)"
  by (simp add: ne_state_wf_def no_endorsement_state_new_def)

lemma ne_start_new_round_wf:
  "ne_state_wf st \<Longrightarrow> nest_earliest_round st \<le> r \<Longrightarrow> ne_state_wf (no_endorsement_state_start_new_round st r)"
  by (auto simp: ne_state_wf_def no_endorsement_state_start_new_round_def bt_retain_def)

lemma ne_round_state_wf:
  assumes "ne_state_wf st"
    and "rs = get_or round_no_endorsement_state_default (nest_pending_no_endorsements st) r"
  shows "(\<forall>(q, m) \<in> set (rne_qc_round_no_endorsements rs). bt_wf m) \<and>
    (nest_earliest_round st \<le> r \<longrightarrow> rne_certificate rs = None)"
  using get_or_cases [of round_no_endorsement_state_default "nest_pending_no_endorsements st" r] assms
  by (auto simp: ne_state_wf_def round_no_endorsement_state_default_def)

lemma bt_wf_add_pending_no_endorsement:
  assumes "ne_state_wf st"
  shows "bt_wf (add_pending_no_endorsement st author msg)"
proof -
  let ?rs = "get_or round_no_endorsement_state_default (nest_pending_no_endorsements st) (ne_round (nemsg_msg msg))"
  have "bt_wf (get_or [] (rne_qc_round_no_endorsements ?rs) (ne_tip_qc_round (nemsg_msg msg)))"
    using get_or_cases [of "[]" "rne_qc_round_no_endorsements ?rs" "ne_tip_qc_round (nemsg_msg msg)"]
      ne_round_state_wf [OF assms refl]
    by force
  then show ?thesis
    by (simp add: add_pending_no_endorsement_def)
qed


definition example_no_endorsement :: "round \<Rightarrow> no_endorsement_message" where
  "example_no_endorsement r =
     \<lparr>nemsg_msg = \<lparr>ne_epoch = 3, ne_round = r, ne_tip_qc_round = 4\<rparr>, nemsg_signature = 107\<rparr>"


text \<open>
  The invariant depends on \<open>start_new_round\<close> not lowering \<open>earliest_round\<close>. After a certificate for
  round 9, a new round 6 makes round 9 acceptable again, and the next no-endorsement for it runs
  into \<open>assert!(round_state.certificate.is_none())\<close>.
\<close>

theorem no_endorsement_assert_reached:
  "\<exists>st nec. process_no_endorsement demo_crypto (no_endorsement_state_new 5) 2 (example_no_endorsement 9)
       solo_vs [(2, 7)] = Some (st, Some nec) \<and>
     process_no_endorsement demo_crypto (no_endorsement_state_start_new_round st 6) 2 (example_no_endorsement 9)
       solo_vs [(2, 7)] = None"
  by (simp add: process_no_endorsement_def no_endorsement_state_start_new_round_def bt_retain_def
      no_endorsement_state_new_def get_or_def round_no_endorsement_state_default_def
      example_no_endorsement_def aggregate_loop_solo Let_def round_add_def checked_add_u64_def)

end
