(* ===== verification/Chain_Config.thy ===== *)
theory Chain_Config
  imports Primitives
begin

text \<open>
  The chain configuration (\<open>monad-chain-config/src\<close>): the protocol revision in force at a round,
  the execution revision in force at a time, their parameters, and the choice of the configuration
  of a chain. Durations are nanoseconds; their checked arithmetic panics at the largest
  \<open>std::time::Duration\<close>.
\<close>

section \<open>Durations\<close>

type_synonym duration = nat

definition duration_max :: duration where
  "duration_max = 2 ^ 64 * 1000000000 - 1"

definition duration_add :: "duration \<Rightarrow> duration \<Rightarrow> duration panics" where
  "duration_add a b = (if a + b \<le> duration_max then Some (a + b) else None)"

definition duration_mul :: "duration \<Rightarrow> nat \<Rightarrow> duration panics" where
  "duration_mul a k = (if a * k \<le> duration_max then Some (a * k) else None)"

definition duration_from_millis :: "nat \<Rightarrow> duration" where
  "duration_from_millis ms = ms * 1000000"

section \<open>Revisions and their parameters\<close>

datatype monad_chain_revision = V_0_7_0 | V_0_8_0 | V_0_10_0

datatype monad_execution_revision = V_ZERO | V_ONE | V_TWO

record chain_params =
  tx_limit :: nat
  proposal_gas_limit :: nat
  proposal_byte_limit :: nat
  vote_pace :: duration

record execution_chain_params =
  max_code_size :: nat

fun chain_revision_params :: "monad_chain_revision \<Rightarrow> chain_params" where
  "chain_revision_params V_0_7_0 =
     \<lparr>tx_limit = 10000, proposal_gas_limit = 300000000, proposal_byte_limit = 4000000,
      vote_pace = duration_from_millis 1000\<rparr>"
| "chain_revision_params V_0_8_0 =
     \<lparr>tx_limit = 5000, proposal_gas_limit = 150000000, proposal_byte_limit = 2000000,
      vote_pace = duration_from_millis 500\<rparr>"
| "chain_revision_params V_0_10_0 =
     \<lparr>tx_limit = 5000, proposal_gas_limit = 150000000, proposal_byte_limit = 2000000,
      vote_pace = duration_from_millis 400\<rparr>"

fun execution_revision_params :: "monad_execution_revision \<Rightarrow> execution_chain_params" where
  "execution_revision_params V_ZERO = \<lparr>max_code_size = 24 * 1024\<rparr>"
| "execution_revision_params V_ONE = \<lparr>max_code_size = 24 * 1024\<rparr>"
| "execution_revision_params V_TWO = \<lparr>max_code_size = 128 * 1024\<rparr>"

text \<open>The derived \<open>Ord\<close> of the two enumerations is the order of their constructors.\<close>

fun chain_revision_index :: "monad_chain_revision \<Rightarrow> nat" where
  "chain_revision_index V_0_7_0 = 0"
| "chain_revision_index V_0_8_0 = 1"
| "chain_revision_index V_0_10_0 = 2"

fun execution_revision_index :: "monad_execution_revision \<Rightarrow> nat" where
  "execution_revision_index V_ZERO = 0"
| "execution_revision_index V_ONE = 1"
| "execution_revision_index V_TWO = 2"

instantiation monad_chain_revision :: linorder
begin

definition less_eq_monad_chain_revision :: "monad_chain_revision \<Rightarrow> monad_chain_revision \<Rightarrow> bool" where
  "less_eq_monad_chain_revision a b \<longleftrightarrow> chain_revision_index a \<le> chain_revision_index b"

definition less_monad_chain_revision :: "monad_chain_revision \<Rightarrow> monad_chain_revision \<Rightarrow> bool" where
  "less_monad_chain_revision a b \<longleftrightarrow> chain_revision_index a < chain_revision_index b"

instance
proof
  fix a b :: monad_chain_revision
  show "a \<le> b \<Longrightarrow> b \<le> a \<Longrightarrow> a = b"
    by (cases a; cases b) (simp_all add: less_eq_monad_chain_revision_def)
qed (auto simp: less_eq_monad_chain_revision_def less_monad_chain_revision_def)

end

instantiation monad_execution_revision :: linorder
begin

definition less_eq_monad_execution_revision ::
  "monad_execution_revision \<Rightarrow> monad_execution_revision \<Rightarrow> bool" where
  "less_eq_monad_execution_revision a b \<longleftrightarrow> execution_revision_index a \<le> execution_revision_index b"

definition less_monad_execution_revision ::
  "monad_execution_revision \<Rightarrow> monad_execution_revision \<Rightarrow> bool" where
  "less_monad_execution_revision a b \<longleftrightarrow> execution_revision_index a < execution_revision_index b"

instance
proof
  fix a b :: monad_execution_revision
  show "a \<le> b \<Longrightarrow> b \<le> a \<Longrightarrow> a = b"
    by (cases a; cases b) (simp_all add: less_eq_monad_execution_revision_def)
qed (auto simp: less_eq_monad_execution_revision_def less_monad_execution_revision_def)

end

section \<open>Configurations\<close>

record monad_chain_config =
  chain_id :: nat
  v_0_7_0_activation :: round
  v_0_8_0_activation :: round
  v_0_10_0_activation :: round
  execution_v_one_activation :: nat
  execution_v_two_activation :: nat

datatype chain_config_error = WrongOverrideChainId nat | UnsupportedChainId nat

definition MONAD_MAINNET_CHAIN_ID :: nat where
  "MONAD_MAINNET_CHAIN_ID = 143"

definition MONAD_TESTNET_CHAIN_ID :: nat where
  "MONAD_TESTNET_CHAIN_ID = 10143"

definition MONAD_DEVNET_CHAIN_ID :: nat where
  "MONAD_DEVNET_CHAIN_ID = 20143"

definition MONAD_TESTNET2_CHAIN_ID :: nat where
  "MONAD_TESTNET2_CHAIN_ID = 30143"

definition MONAD_DEVNET_CHAIN_CONFIG :: monad_chain_config where
  "MONAD_DEVNET_CHAIN_CONFIG =
     \<lparr>chain_id = MONAD_DEVNET_CHAIN_ID, v_0_7_0_activation = 0, v_0_8_0_activation = 0,
      v_0_10_0_activation = 0, execution_v_one_activation = 0, execution_v_two_activation = 0\<rparr>"

definition MONAD_TESTNET_CHAIN_CONFIG :: monad_chain_config where
  "MONAD_TESTNET_CHAIN_CONFIG =
     \<lparr>chain_id = MONAD_TESTNET_CHAIN_ID, v_0_7_0_activation = 0, v_0_8_0_activation = 3263000,
      v_0_10_0_activation = 32026929, execution_v_one_activation = 1739559600,
      execution_v_two_activation = 1741978800\<rparr>"

definition MONAD_TESTNET2_CHAIN_CONFIG :: monad_chain_config where
  "MONAD_TESTNET2_CHAIN_CONFIG =
     \<lparr>chain_id = MONAD_TESTNET2_CHAIN_ID, v_0_7_0_activation = 0, v_0_8_0_activation = 0,
      v_0_10_0_activation = 6487752, execution_v_one_activation = 0, execution_v_two_activation = 0\<rparr>"

definition MONAD_MAINNET_CHAIN_CONFIG :: monad_chain_config where
  "MONAD_MAINNET_CHAIN_CONFIG =
     \<lparr>chain_id = MONAD_MAINNET_CHAIN_ID, v_0_7_0_activation = 0, v_0_8_0_activation = 0,
      v_0_10_0_activation = 15643179, execution_v_one_activation = 0, execution_v_two_activation = 0\<rparr>"

definition monad_chain_config_new ::
  "nat \<Rightarrow> monad_chain_config option \<Rightarrow> chain_config_error + monad_chain_config" where
  "monad_chain_config_new cid devnet_override =
     (if cid = MONAD_MAINNET_CHAIN_ID then Inr MONAD_MAINNET_CHAIN_CONFIG
      else if cid = MONAD_TESTNET_CHAIN_ID then Inr MONAD_TESTNET_CHAIN_CONFIG
      else if cid = MONAD_DEVNET_CHAIN_ID then
        (case devnet_override of
           None \<Rightarrow> Inr MONAD_DEVNET_CHAIN_CONFIG
         | Some override_config \<Rightarrow>
             if chain_id override_config \<noteq> MONAD_DEVNET_CHAIN_ID
             then Inl (WrongOverrideChainId (chain_id override_config)) else Inr override_config)
      else if cid = MONAD_TESTNET2_CHAIN_ID then Inr MONAD_TESTNET2_CHAIN_CONFIG
      else Inl (UnsupportedChainId cid))"

definition get_chain_revision :: "monad_chain_config \<Rightarrow> round \<Rightarrow> monad_chain_revision" where
  "get_chain_revision c r =
     (if r \<ge> v_0_10_0_activation c then V_0_10_0
      else if r \<ge> v_0_8_0_activation c then V_0_8_0
      else if r \<ge> v_0_7_0_activation c then V_0_7_0
      else V_0_7_0)"

definition get_execution_chain_revision :: "monad_chain_config \<Rightarrow> nat \<Rightarrow> monad_execution_revision" where
  "get_execution_chain_revision c t =
     (if t \<ge> execution_v_two_activation c then V_TWO
      else if t \<ge> execution_v_one_activation c then V_ONE
      else V_ZERO)"

section \<open>Lemmas\<close>

text \<open>
  C38. Revisions never go back: on every configuration the revision in force at a later round (or at
  a later execution timestamp) is at least the earlier one, so the vote pace never grows.
\<close>

theorem revisions_monotone:
  "mono (get_chain_revision c) \<and> mono (get_execution_chain_revision c) \<and>
   antimono (\<lambda>r. vote_pace (chain_revision_params (get_chain_revision c r)))"
  by (auto simp: monotone_def get_chain_revision_def get_execution_chain_revision_def
      less_eq_monad_chain_revision_def less_eq_monad_execution_revision_def duration_from_millis_def)

text \<open>
  C37. \<open>MonadChainConfig::new\<close> returns a configuration exactly for the four known chains, except a
  devnet override that names another chain; the configuration it returns is for the chain asked.
\<close>

theorem monad_chain_config_new_correct:
  "case monad_chain_config_new cid ov of
     Inr c \<Rightarrow> chain_id c = cid \<and>
       (c \<in> {MONAD_MAINNET_CHAIN_CONFIG, MONAD_TESTNET_CHAIN_CONFIG, MONAD_TESTNET2_CHAIN_CONFIG} \<or>
        cid = MONAD_DEVNET_CHAIN_ID \<and> c = (case ov of None \<Rightarrow> MONAD_DEVNET_CHAIN_CONFIG | Some o' \<Rightarrow> o'))
   | Inl (WrongOverrideChainId i) \<Rightarrow> 
       cid = MONAD_DEVNET_CHAIN_ID \<and> i \<noteq> MONAD_DEVNET_CHAIN_ID \<and> map_option chain_id ov = Some i
   | Inl (UnsupportedChainId i) \<Rightarrow> i = cid \<and>
       cid \<notin> {MONAD_MAINNET_CHAIN_ID, MONAD_TESTNET_CHAIN_ID, MONAD_DEVNET_CHAIN_ID, MONAD_TESTNET2_CHAIN_ID}"
  by (auto simp: monad_chain_config_new_def MONAD_MAINNET_CHAIN_CONFIG_def MONAD_TESTNET_CHAIN_CONFIG_def
      MONAD_DEVNET_CHAIN_CONFIG_def MONAD_TESTNET2_CHAIN_CONFIG_def split: option.splits if_splits)

end
