(* ===== verification/Pacemaker.thy ===== *)
theory Pacemaker
  imports Safety_Module SigCollection Chain_Config
begin

text \<open>
  The pacemaker (\<open>monad-consensus/src/pacemaker.rs\<close>): the current round, local and remote
  timeouts, and the timeout certificates built from them. Its operations also act on the safety
  module; they return the new pacemaker, the new safety module and the commands they emit.
  Metrics are not modelled.
\<close>

section \<open>Data\<close>

datatype phase_honest = Phase_Zero | Phase_One

record ('s, 'e) pacemaker =
  pm_delta :: duration
  pm_chain_config :: monad_chain_config
  pm_local_processing :: duration
  pm_current_epoch :: epoch
  pm_high_certificate :: "('s, 'e) round_certificate"
  pm_pending_timeouts :: "(node_id \<times> ('s, 'e) timeout) list"
  pm_phase :: phase_honest

datatype ('s, 'e) pacemaker_command =
    PC_EnterRound epoch round "('s, 'e) round_certificate"
  | PC_PrepareTimeout timeout_info "('s, 'e) high_extend" "('s, 'e) round_certificate option"
  | PC_Schedule round duration
  | PC_ScheduleReset

section \<open>Operations\<close>

definition get_current_round :: "('s, 'e) pacemaker \<Rightarrow> round panics" where
  "get_current_round pm = round_add (round_certificate_round (pm_high_certificate pm)) 1"

definition pacemaker_new ::
  "duration \<Rightarrow> monad_chain_config \<Rightarrow> duration \<Rightarrow> epoch_manager \<Rightarrow> ('s, 'e) round_certificate \<Rightarrow>
   ('s, 'e) pacemaker panics" where
  "pacemaker_new delta cc local_processing em high_certificate = do {
     current_round \<leftarrow> round_add (round_certificate_round high_certificate) 1;
     current_epoch \<leftarrow> get_epoch em current_round;
     Some \<lparr>pm_delta = delta, pm_chain_config = cc, pm_local_processing = local_processing,
           pm_current_epoch = current_epoch, pm_high_certificate = high_certificate,
           pm_pending_timeouts = [], pm_phase = Phase_Zero\<rparr> }"

definition get_round_timer :: "('s, 'e) pacemaker \<Rightarrow> round \<Rightarrow> duration panics" where
  "get_round_timer pm r = do {
     d3 \<leftarrow> duration_mul (pm_delta pm) 3;
     d \<leftarrow> duration_add d3 (vote_pace (chain_revision_params (get_chain_revision (pm_chain_config pm) r)));
     duration_add d (pm_local_processing pm) }"

definition pacemaker_process_certificate ::
  "('s, 'e) pacemaker \<Rightarrow> epoch_manager \<Rightarrow> ('s, 'e) safety \<Rightarrow> ('s, 'e) round_certificate \<Rightarrow>
   (('s, 'e) pacemaker \<times> ('s, 'e) safety \<times> ('s, 'e) pacemaker_command list) panics" where
  "pacemaker_process_certificate pm em s certificate =
     (if round_certificate_round certificate \<le> round_certificate_round (pm_high_certificate pm)
      then Some (pm, s, [])
      else do {
        let s' = safety_process_certificate s certificate;
        let pm1 = pm\<lparr>pm_high_certificate := certificate\<rparr>;
        r \<leftarrow> get_current_round pm1;
        e \<leftarrow> get_epoch em r;
        let pm2 = pm1\<lparr>pm_current_epoch := e, pm_phase := Phase_Zero, pm_pending_timeouts := []\<rparr>;
        timer \<leftarrow> get_round_timer pm2 r;
        Some (pm2, s', [PC_EnterRound e r certificate, PC_Schedule r timer]) })"

text \<open>The timeout a node prepares: what it signs, what it extends, and the last round's certificate.\<close>

definition local_timeout_info ::
  "('s, 'e) pacemaker \<Rightarrow> round \<Rightarrow> ('s, 'e) high_extend \<Rightarrow> timeout_info" where
  "local_timeout_info pm current_round he =
     (let (high_tip_round, high_qc_round) =
        (case he of
           HE_Tip tip \<Rightarrow> (tip_round tip, qc_round (h_qc (tip_block_header tip)))
         | HE_Qc qc \<Rightarrow> (GENESIS_ROUND, qc_round qc))
      in \<lparr>ti_epoch = pm_current_epoch pm, ti_round = current_round,
          ti_high_qc_round = high_qc_round, ti_high_tip_round = high_tip_round\<rparr>)"

definition local_timeout_round ::
  "('s, 'e) pacemaker \<Rightarrow> ('s, 'e) safety \<Rightarrow> (('s, 'e) safety \<times> ('s, 'e) pacemaker_command list) panics"
where
  "local_timeout_round pm s = do {
     current_round \<leftarrow> get_current_round pm;
     s' \<leftarrow> safety_timeout s current_round;
     let he = (case maybe_high_tip s' of
                 None \<Rightarrow> HE_Qc (round_certificate_qc (pm_high_certificate pm))
               | Some tip \<Rightarrow> HE_Tip tip);
     let ti = local_timeout_info pm current_round he;
     next_round \<leftarrow> round_add (ti_high_qc_round ti) 1;
     let last_round_rc = (if next_round = current_round then None else Some (pm_high_certificate pm));
     timer \<leftarrow> get_round_timer pm current_round;
     Some (s', [PC_ScheduleReset, PC_PrepareTimeout ti he last_round_rc, PC_Schedule current_round timer]) }"

definition process_local_timeout ::
  "('s, 'e) pacemaker \<Rightarrow> ('s, 'e) safety \<Rightarrow>
   (('s, 'e) pacemaker \<times> ('s, 'e) safety \<times> ('s, 'e) pacemaker_command list) panics" where
  "process_local_timeout pm s = do {
     let pm' = pm\<lparr>pm_phase := Phase_One\<rparr>;
     (s', cmds) \<leftarrow> local_timeout_round pm' s;
     Some (pm', s', cmds) }"

definition handle_invalid_timeout ::
  "(node_id \<times> ('s, 'e) timeout) list \<Rightarrow> (node_id \<times> signature) list \<Rightarrow> (node_id \<times> ('s, 'e) timeout) list" where
  "handle_invalid_timeout pending invalid_timeouts = fold (\<lambda>(n, _). bt_remove n) invalid_timeouts pending"

text \<open>
  The \<open>while\<close> loop of \<open>process_remote_timeout\<close> in phase one: the pending timeouts it leaves and the
  certificate it builds, if any. As for votes, a loop that does not end is \<open>None\<close>.
\<close>

partial_function (option) timeout_loop ::
  "('s, 'e) crypto \<Rightarrow> validator_set \<Rightarrow> validator_mapping \<Rightarrow> epoch \<Rightarrow> round \<Rightarrow>
   (node_id \<times> ('s, 'e) timeout) list \<Rightarrow>
   ((node_id \<times> ('s, 'e) timeout) list \<times> ('s, 'e) timeout_certificate option) option" where
  "timeout_loop C vs vm e r pending =
     (case has_super_majority_votes vs (map fst pending) of
        Some (Inr super_majority) \<Rightarrow>
          if super_majority then
            (case timeout_certificate_new C e r pending vm of
               Some (Inr tc) \<Rightarrow> Some (pending, Some tc)
             | Some (Inl (InvalidSignaturesCreate invalid_sigs)) \<Rightarrow>
                 timeout_loop C vs vm e r (handle_invalid_timeout pending invalid_sigs)
             | _ \<Rightarrow> None)
          else Some (pending, None)
      | _ \<Rightarrow> None)"

text \<open>A node that sees timeouts of a weak quorum in phase zero times out itself.\<close>

definition join_timeout ::
  "('s, 'e) pacemaker \<Rightarrow> validator_set \<Rightarrow> ('s, 'e) safety \<Rightarrow>
   (('s, 'e) pacemaker \<times> ('s, 'e) safety \<times> ('s, 'e) pacemaker_command list) panics" where
  "join_timeout pm vs s =
     (if pm_phase pm = Phase_Zero then do {
        honest \<leftarrow> has_honest_vote vs (map fst (pm_pending_timeouts pm));
        b \<leftarrow> (case honest of Inl _ \<Rightarrow> None | Inr b \<Rightarrow> Some b);
        if b then do {
          (s', cmds) \<leftarrow> local_timeout_round pm s;
          Some (pm\<lparr>pm_phase := Phase_One\<rparr>, s', cmds) }
        else Some (pm, s, []) }
      else Some (pm, s, []))"

definition process_remote_timeout ::
  "('s, 'e) crypto \<Rightarrow> ('s, 'e) pacemaker \<Rightarrow> epoch_manager \<Rightarrow> validator_set \<Rightarrow> validator_mapping \<Rightarrow>
   ('s, 'e) safety \<Rightarrow> node_id \<Rightarrow> ('s, 'e) timeout \<Rightarrow>
   (('s, 'e) pacemaker \<times> ('s, 'e) safety \<times> ('s, 'e) pacemaker_command list) panics" where
  "process_remote_timeout C pm em vs vm s author tm = do {
     current_round \<leftarrow> get_current_round pm;
     if ti_round (tm_tminfo tm) < current_round then Some (pm, s, [])
     else do {
       rust_assert (ti_round (tm_tminfo tm) = current_round);
       let pending = bt_insert author tm (pm_pending_timeouts pm);
       let pm1 = pm\<lparr>pm_pending_timeouts := pending\<rparr>;
       (pm2, s2, cmds) \<leftarrow> join_timeout pm1 vs s;
       if pm_phase pm2 = Phase_One then do {
         (pending', res) \<leftarrow> timeout_loop C vs vm (ti_epoch (tm_tminfo tm)) (ti_round (tm_tminfo tm)) pending;
         let pm3 = pm2\<lparr>pm_pending_timeouts := pending'\<rparr>;
         (case res of
            None \<Rightarrow> Some (pm3, s2, cmds)
          | Some tc \<Rightarrow> do {
              (pm4, s4, cmds') \<leftarrow> pacemaker_process_certificate pm3 em s2 (RC_Tc tc);
              rust_assert (pm_phase pm4 = Phase_Zero);
              Some (pm4, s4, cmds @ cmds') }) }
       else Some (pm2, s2, cmds) } }"

section \<open>Certificates advance the round\<close>

text \<open>
  C23. A certificate for a later round moves the pacemaker to the round after it, in phase zero with
  no pending timeouts and in the epoch of that round, and the safety module learns it; the node is
  told to enter that round and to start its timer. Any other certificate changes nothing. Either
  way the round of the high certificate never decreases.
\<close>

theorem process_certificate_advances:
  assumes "pacemaker_process_certificate pm em s cert = Some (pm', s', cmds)"
  shows "if round_certificate_round (pm_high_certificate pm) < round_certificate_round cert
    then pm_high_certificate pm' = cert \<and> pm_phase pm' = Phase_Zero \<and> pm_pending_timeouts pm' = [] \<and>
      get_current_round pm' = Some (round_certificate_round cert + 1) \<and>
      get_epoch em (round_certificate_round cert + 1) = Some (pm_current_epoch pm') \<and>
      s' = safety_process_certificate s cert \<and>
      (\<exists>timer. cmds = [PC_EnterRound (pm_current_epoch pm') (round_certificate_round cert + 1) cert,
                       PC_Schedule (round_certificate_round cert + 1) timer])
    else pm' = pm \<and> s' = s \<and> cmds = []"
  using assms
  by (auto simp: pacemaker_process_certificate_def get_current_round_def Let_def
      split: if_splits Option.bind_splits)

section \<open>Remote timeouts\<close>

text \<open>The pending timeout of a node carries a valid signature of that node over its info.\<close>

definition timeout_valid ::
  "(signature \<Rightarrow> sc_msg \<Rightarrow> cert_pubkey \<Rightarrow> bool) \<Rightarrow> validator_mapping \<Rightarrow> node_id \<Rightarrow> ('s, 'e) timeout \<Rightarrow> bool"
where
  "timeout_valid valid vm n t \<longleftrightarrow>
     (\<exists>pk. map_of vm n = Some pk \<and> valid (tm_timeout_signature t) (TimeoutMsg (tm_tminfo t)) pk)"

lemma timeout_valid_signer:
  "timeout_valid valid vm n t \<longleftrightarrow>
   signer_valid valid vm (TimeoutMsg (tm_tminfo t)) n (tm_timeout_signature t)"
  by (simp add: timeout_valid_def signer_valid_def)

lemma bt_remove_set: "set (bt_remove k m) = {(k', v) \<in> set m. k' \<noteq> k}"
  by (auto simp: bt_remove_def)

lemma handle_invalid_timeout_set:
  "set (handle_invalid_timeout pending bad) = {(n, t) \<in> set pending. n \<notin> fst ` set bad}"
  unfolding handle_invalid_timeout_def
  by (induction bad arbitrary: pending) (auto simp: bt_remove_set)

lemma bt_wf_handle_invalid_timeout [simp]:
  "bt_wf pending \<Longrightarrow> bt_wf (handle_invalid_timeout pending bad)"
  unfolding handle_invalid_timeout_def by (induction bad arbitrary: pending) auto

lemma signers_of_set:
  "(n, sig) \<in> set (signers_of ts ti) \<longleftrightarrow> (\<exists>t. (n, t) \<in> set ts \<and> tm_tminfo t = ti \<and> tm_timeout_signature t = sig)"
  by (auto simp: signers_of_def)

lemma signers_of_fst: "fst ` set (signers_of ts ti) \<subseteq> fst ` set ts"
  by (force simp: signers_of_def)

lemma signers_of_distinct: "distinct (map fst ts) \<Longrightarrow> distinct (map fst (signers_of ts ti))"
  by (induction ts) (auto simp: signers_of_def image_iff)

context signature_collection
begin

lemma tc_tip_rounds_of_err:
  assumes "\<forall>(ti, ss) \<in> set groups. distinct (map fst ss) \<and> fst ` set ss \<subseteq> fst ` set vm"
    and "tc_tip_rounds_of C vm groups = Inl e"
  shows "\<exists>ti ss bad. (ti, ss) \<in> set groups \<and> e = InvalidSignaturesCreate bad \<and>
    sc_new C ss vm (TimeoutMsg ti) = Inl (InvalidSignaturesCreate bad)"
  using assms
proof (induction groups)
  case (Cons g groups)
  obtain ti ss where g: "g = (ti, ss)"
    by (cases g)
  have ss: "distinct (map fst ss)" "fst ` set ss \<subseteq> fst ` set vm"
    and rest: "\<forall>(ti, ss) \<in> set groups. distinct (map fst ss) \<and> fst ` set ss \<subseteq> fst ` set vm"
    using Cons.prems(1) g by simp_all
  show ?case
  proof (cases "sc_new C ss vm (TimeoutMsg ti)")
    case (Inl e')
    then have "e = e'"
      using Cons.prems(2) g by simp
    moreover obtain bad where "e' = InvalidSignaturesCreate bad"
      using new_error [OF ss Inl] by blast
    ultimately show ?thesis
      using Inl g by auto
  next
    case (Inr sct)
    then have "tc_tip_rounds_of C vm groups = Inl e"
      using Cons.prems(2) g by (cases "tc_tip_rounds_of C vm groups") auto
    from Cons.IH [OF rest this] obtain ti' ss' bad where "(ti', ss') \<in> set (g # groups)"
      "e = InvalidSignaturesCreate bad" "sc_new C ss' vm (TimeoutMsg ti') = Inl (InvalidSignaturesCreate bad)"
      by auto
    then show ?thesis
      by blast
  qed
qed simp

lemma timeout_certificate_new_cases:
  assumes "distinct (map fst ts)" and "fst ` set ts \<subseteq> fst ` set vm"
  shows "(\<exists>tc. timeout_certificate_new C e r ts vm = Some (Inr tc)) \<or>
    (\<exists>bad. timeout_certificate_new C e r ts vm = Some (Inl (InvalidSignaturesCreate bad)) \<and> bad \<noteq> [] \<and>
       (\<forall>(n, sig) \<in> set bad. \<exists>t. (n, t) \<in> set ts \<and> \<not> timeout_valid valid vm n t))"
proof -
  obtain gqc where g: "genesis_qc C = Some gqc"
    using genesis_qc_defined by blast
  obtain h groups where c: "tc_collect ts (HE_Qc gqc) [] = (h, groups)"
    by fastforce
  note groups = tc_groups_exact [OF c]
  have ok: "\<forall>(ti, ss) \<in> set groups. distinct (map fst ss) \<and> fst ` set ss \<subseteq> fst ` set vm"
  proof clarify
    fix ti ss
    assume "(ti, ss) \<in> set groups"
    then have "ss = signers_of ts ti"
      by (simp add: groups)
    then show "distinct (map fst ss) \<and> fst ` set ss \<subseteq> fst ` set vm"
      using signers_of_distinct [OF assms(1)] subset_trans [OF signers_of_fst assms(2)] by simp
  qed
  show ?thesis
  proof (cases "tc_tip_rounds_of C vm groups")
    case (Inl err)
    obtain ti ss bad where b: "(ti, ss) \<in> set groups" "err = InvalidSignaturesCreate bad"
      "sc_new C ss vm (TimeoutMsg ti) = Inl (InvalidSignaturesCreate bad)"
      using tc_tip_rounds_of_err [OF ok Inl] by blast
    have "timeout_certificate_new C e r ts vm = Some (Inl (InvalidSignaturesCreate bad))"
      using g c Inl b(2) by (simp add: timeout_certificate_new_def)
    moreover have "\<exists>t. (n, t) \<in> set ts \<and> \<not> timeout_valid valid vm n t" if "(n, sig) \<in> set bad" for n sig
    proof -
      have ss: "ss = signers_of ts ti"
        using b(1) by (simp add: groups)
      have "(n, sig) \<in> set ss \<and> \<not> signer_valid valid vm (TimeoutMsg ti) n sig"
        using new_invalid [OF b(3)] that by blast
      then show ?thesis
        unfolding ss signers_of_set timeout_valid_signer by blast
    qed
    ultimately show ?thesis
      using new_invalid [OF b(3)] by blast
  next
    case (Inr tuples)
    then show ?thesis
      using g c by (simp add: timeout_certificate_new_def)
  qed
qed

lemma timeout_certificate_new_valid:
  assumes "timeout_certificate_new C e r ts vm = Some (Inr tc)" and "(n, t) \<in> set ts"
  shows "timeout_valid valid vm n t"
proof -
  obtain tup where "tuple_covers C vm ts t tup"
    using timeout_certificate_new_spec [OF assms(1)] assms(2) by blast
  then have "sc_new C (signers_of ts (tm_tminfo t)) vm (TimeoutMsg (tm_tminfo t)) = Inr (ht_sigs tup)"
    by (simp add: tuple_covers_def)
  moreover have "(n, tm_timeout_signature t) \<in> set (signers_of ts (tm_tminfo t))"
    using assms(2) by (auto simp: signers_of_set)
  ultimately show ?thesis
    unfolding timeout_valid_signer by (rule new_sound)
qed

lemma handle_invalid_timeout_removes:
  assumes "bt_wf pending" and "bad \<noteq> []"
    and "\<forall>(n, sig) \<in> set bad. \<exists>t. (n, t) \<in> set pending \<and> \<not> timeout_valid valid vm n t"
  shows "set (handle_invalid_timeout pending bad) \<subset> set pending"
    and "\<forall>(n, t) \<in> set pending - set (handle_invalid_timeout pending bad). \<not> timeout_valid valid vm n t"
proof -
  obtain n sig rest where b: "bad = (n, sig) # rest"
    using assms(2) by (metis list.exhaust prod.exhaust)
  then obtain t where "(n, t) \<in> set pending"
    using assms(3) by auto
  moreover have "(n, t) \<notin> set (handle_invalid_timeout pending bad)"
    by (simp add: handle_invalid_timeout_set b)
  moreover have "set (handle_invalid_timeout pending bad) \<subseteq> set pending"
    by (auto simp: handle_invalid_timeout_set)
  ultimately show "set (handle_invalid_timeout pending bad) \<subset> set pending"
    by blast
  show "\<forall>(n, t) \<in> set pending - set (handle_invalid_timeout pending bad). \<not> timeout_valid valid vm n t"
  proof clarify
    fix n t
    assume p: "(n, t) \<in> set pending" "(n, t) \<notin> set (handle_invalid_timeout pending bad)"
      and v: "timeout_valid valid vm n t"
    then have "n \<in> fst ` set bad"
      by (simp add: handle_invalid_timeout_set)
    then obtain t' where "(n, t') \<in> set pending" "\<not> timeout_valid valid vm n t'"
      using assms(3) by auto
    then show False
      using bt_wf_functional [OF assms(1) p(1)] v by blast
  qed
qed

lemma timeout_loop_total:
  assumes "vs_wf vs" and "bt_wf pending" and "fst ` set pending \<subseteq> fst ` set vm"
  shows "\<exists>pending' res. timeout_loop C vs vm e r pending = Some (pending', res) \<and>
    bt_wf pending' \<and> set pending' \<subseteq> set pending \<and>
    (\<forall>(n, t) \<in> set pending - set pending'. \<not> timeout_valid valid vm n t) \<and>
    is_quorum vs (map fst pending') = (res \<noteq> None) \<and>
    (\<forall>tc. res = Some tc \<longrightarrow> timeout_certificate_new C e r pending' vm = Some (Inr tc))"
  using assms(2,3)
proof (induction "card (set pending)" arbitrary: pending rule: less_induct)
  case less
  have d: "distinct (map fst pending)"
    using less.prems(1) by (rule bt_wf_distinct)
  note majority = has_super_majority_votes_total [OF assms(1) d]
  show ?case
  proof (cases "is_quorum vs (map fst pending)")
    case False
    then show ?thesis
      using majority less.prems(1) by (subst timeout_loop.simps) simp
  next
    case True
    from timeout_certificate_new_cases [OF d less.prems(2), of e r] show ?thesis
    proof (elim disjE exE conjE)
      fix tc
      assume "timeout_certificate_new C e r pending vm = Some (Inr tc)"
      then show ?thesis
        using True majority less.prems(1) by (subst timeout_loop.simps) simp
    next
      fix bad
      assume e: "timeout_certificate_new C e r pending vm = Some (Inl (InvalidSignaturesCreate bad))"
        and bad: "bad \<noteq> []" "\<forall>(n, sig) \<in> set bad. \<exists>t. (n, t) \<in> set pending \<and> \<not> timeout_valid valid vm n t"
      let ?p = "handle_invalid_timeout pending bad"
      note removes = handle_invalid_timeout_removes [OF less.prems(1) bad]
      have "card (set ?p) < card (set pending)" "fst ` set ?p \<subseteq> fst ` set vm" "bt_wf ?p"
        using psubset_card_mono [OF _ removes(1)] less.prems removes(1) by (simp, blast, simp)
      from less.hyps [OF this(1,3,2)] removes
      obtain pending' res where r: "timeout_loop C vs vm e r ?p = Some (pending', res)"
        and ok: "bt_wf pending'" "set pending' \<subseteq> set pending"
          "\<forall>(n, t) \<in> set pending - set pending'. \<not> timeout_valid valid vm n t"
          "is_quorum vs (map fst pending') = (res \<noteq> None)"
          "\<forall>tc. res = Some tc \<longrightarrow> timeout_certificate_new C e r pending' vm = Some (Inr tc)"
        by blast
      have "timeout_loop C vs vm e r pending = Some (pending', res)"
        using True majority e r by (subst timeout_loop.simps) simp
      then show ?thesis
        using ok by blast
    qed
  qed
qed

end

text \<open>
  The state of the pacemaker in its current round: pending timeouts are in key order and for that
  round; \<open>timers_fit\<close> keeps the round timer within the range of durations.
\<close>

definition pacemaker_wf :: "('s, 'e) pacemaker \<Rightarrow> bool" where
  "pacemaker_wf pm \<longleftrightarrow> bt_wf (pm_pending_timeouts pm) \<and>
     (\<forall>(n, t) \<in> set (pm_pending_timeouts pm). get_current_round pm = Some (ti_round (tm_tminfo t)))"

definition timers_fit :: "('s, 'e) pacemaker \<Rightarrow> bool" where
  "timers_fit pm \<longleftrightarrow> 3 * pm_delta pm + 1000000000 + pm_local_processing pm \<le> duration_max"

definition timeout_ready :: "('s, 'e) pacemaker \<Rightarrow> ('s, 'e) safety \<Rightarrow> round \<Rightarrow> bool" where
  "timeout_ready pm s r \<longleftrightarrow> highest_vote s \<le> r \<and>
     qc_round (round_certificate_qc (pm_high_certificate pm)) < u64_max \<and>
     (\<forall>tip. maybe_high_tip s = Some tip \<longrightarrow> qc_round (h_qc (tip_block_header tip)) < u64_max)"

lemma get_round_timer_defined:
  assumes "timers_fit pm"
  shows "\<exists>d. get_round_timer pm r = Some d"
proof -
  have "vote_pace (chain_revision_params rev) \<le> 1000000000" for rev
    by (cases rev) (simp_all add: duration_from_millis_def)
  from this [of "get_chain_revision (pm_chain_config pm) r"] show ?thesis
    using assms by (auto simp: get_round_timer_def timers_fit_def duration_mul_def duration_add_def)
qed

lemma local_timeout_round_defined:
  assumes "timers_fit pm" and "timeout_ready pm s r" and "get_current_round pm = Some r"
  shows "\<exists>cmds. local_timeout_round pm s = Some (s\<lparr>highest_vote := r\<rparr>, cmds)"
proof -
  obtain d where "get_round_timer pm r = Some d"
    using get_round_timer_defined [OF assms(1)] by blast
  then show ?thesis
    using assms(2,3)
    by (auto simp: local_timeout_round_def timeout_ready_def safety_timeout_def local_timeout_info_def
        round_add_def checked_add_u64_def Let_def split: option.splits)
qed

lemma has_honest_vote_total:
  assumes "vs_wf vs" and "distinct addrs"
  shows "has_honest_vote vs addrs = Some (Inr (is_weak_quorum vs addrs))"
proof -
  have "\<exists>b. has_honest_vote vs addrs = Some (Inr b)"
    unfolding has_honest_vote_def using has_threshold_votes_iff [OF assms(1)] assms(2) by blast
  then show ?thesis
    by (auto simp: is_weak_quorum_def)
qed

lemma join_timeout_defined:
  assumes "vs_wf vs" and "bt_wf (pm_pending_timeouts pm)" and "timers_fit pm"
    and "timeout_ready pm s r" and "get_current_round pm = Some r"
  shows "\<exists>ph s' cmds. join_timeout pm vs s = Some (pm\<lparr>pm_phase := ph\<rparr>, s', cmds) \<and>
    (s' = s \<or> s' = s\<lparr>highest_vote := r\<rparr>) \<and>
    (ph = Phase_One \<longleftrightarrow> pm_phase pm = Phase_One \<or> is_weak_quorum vs (map fst (pm_pending_timeouts pm)))"
proof (cases "pm_phase pm")
  case Phase_Zero
  obtain cmds where l: "local_timeout_round pm s = Some (s\<lparr>highest_vote := r\<rparr>, cmds)"
    using local_timeout_round_defined [OF assms(3-5)] by blast
  note hv = has_honest_vote_total [OF assms(1) bt_wf_distinct [OF assms(2)]]
  show ?thesis
  proof (cases "is_weak_quorum vs (map fst (pm_pending_timeouts pm))")
    case True
    then have "join_timeout pm vs s = Some (pm\<lparr>pm_phase := Phase_One\<rparr>, s\<lparr>highest_vote := r\<rparr>, cmds)"
      using Phase_Zero hv l by (simp add: join_timeout_def)
    then show ?thesis
      using True by blast
  next
    case False
    then have "join_timeout pm vs s = Some (pm\<lparr>pm_phase := Phase_Zero\<rparr>, s, [])"
      using Phase_Zero hv by (simp add: join_timeout_def)
    then show ?thesis
      using False Phase_Zero by (intro exI [of _ Phase_Zero] exI [of _ s] exI [of _ "[]"]) simp
  qed
next
  case Phase_One
  then have "join_timeout pm vs s = Some (pm\<lparr>pm_phase := Phase_One\<rparr>, s, [])"
    by (simp add: join_timeout_def)
  then show ?thesis
    using Phase_One by blast
qed

lemma process_certificate_defined:
  assumes "get_current_round pm = Some r" and "round_certificate_round cert = r" and "r < u64_max"
    and "get_epoch em (r + 1) \<noteq> None" and "timers_fit pm"
  shows "\<exists>e d. pacemaker_process_certificate pm em s cert =
    Some (pm\<lparr>pm_high_certificate := cert, pm_current_epoch := e, pm_phase := Phase_Zero, pm_pending_timeouts := []\<rparr>,
          safety_process_certificate s cert, [PC_EnterRound e (r + 1) cert, PC_Schedule (r + 1) d])"
proof -
  obtain e where e: "get_epoch em (r + 1) = Some e"
    using assms(4) by blast
  let ?pm = "pm\<lparr>pm_high_certificate := cert, pm_current_epoch := e, pm_phase := Phase_Zero, pm_pending_timeouts := []\<rparr>"
  have "timers_fit ?pm"
    using assms(5) by (simp add: timers_fit_def)
  then obtain d where "get_round_timer ?pm (r + 1) = Some d"
    using get_round_timer_defined by blast
  moreover have "round_certificate_round (pm_high_certificate pm) + 1 = r"
    using assms(1) by (simp add: get_current_round_def)
  ultimately have "pacemaker_process_certificate pm em s cert =
      Some (?pm, safety_process_certificate s cert, [PC_EnterRound e (r + 1) cert, PC_Schedule (r + 1) d])"
    using assms(2,3) e
    by (auto simp: pacemaker_process_certificate_def get_current_round_def round_add_def checked_add_u64_def Let_def)
  then show ?thesis
    by blast
qed


definition demo_pacemaker :: "(multi_sig, unit) pacemaker" where
  "demo_pacemaker =
     \<lparr>pm_delta = 200000000, pm_chain_config = MONAD_DEVNET_CHAIN_CONFIG, pm_local_processing = 50000000,
      pm_current_epoch = 3, pm_high_certificate = RC_Qc (demo_qc 8),
      pm_pending_timeouts = [], pm_phase = Phase_Zero\<rparr>"

definition demo_timeout :: "(multi_sig, unit) timeout" where
  "demo_timeout = timeout_new demo_crypto 7
     \<lparr>ti_epoch = 3, ti_round = 9, ti_high_qc_round = 8, ti_high_tip_round = 0\<rparr> (HE_Qc (demo_qc 8)) None"

lemma demo_current_round: "get_current_round demo_pacemaker = Some 9"
  by (simp add: get_current_round_def demo_pacemaker_def demo_qc_def)

lemma demo_timers_fit: "timers_fit demo_pacemaker"
  by (simp add: timers_fit_def demo_pacemaker_def duration_max_def)

theorem process_certificate_advances_witness:
  "\<exists>pm' s' cmds. pacemaker_process_certificate demo_pacemaker demo_em safety_default (RC_Qc (demo_qc 9)) =
     Some (pm', s', cmds) \<and> get_current_round pm' = Some 10"
proof -
  obtain pm' s' cmds where
    p: "pacemaker_process_certificate demo_pacemaker demo_em safety_default (RC_Qc (demo_qc 9)) = Some (pm', s', cmds)"
    using process_certificate_defined [OF demo_current_round, of "RC_Qc (demo_qc 9)" demo_em safety_default]
      demo_timers_fit
    by (auto simp: demo_qc_def demo_em_def get_epoch_def)
  then show ?thesis
    using process_certificate_advances [OF p] by (simp add: demo_pacemaker_def demo_qc_def)
qed


end
