(* ===== verification/Messages.thy ===== *)
theory Messages
  imports Votes
begin

text \<open>
  The messages nodes exchange (\<open>monad-consensus/src/messages\<close>): the payloads of the six kinds of
  protocol message, the versioned message that wraps them, and the constructors that sign a vote
  or a no-endorsement. A \<open>TimeoutMessage\<close> is its \<open>Timeout\<close>.
\<close>

section \<open>Data\<close>

record ('s, 'e) proposal_message =
  p_proposal_round :: round
  p_proposal_epoch :: epoch
  p_tip :: "('s, 'e) consensus_tip"
  p_block_body :: 'e
  p_last_round_tc :: "('s, 'e) timeout_certificate option"

record ('s, 'e) round_recovery_message =
  rr_round :: round
  rr_epoch :: epoch
  rr_tc :: "('s, 'e) timeout_certificate"

record ('s, 'e) advance_round_message =
  ar_last_round_certificate :: "('s, 'e) round_certificate"

datatype ('s, 'e) protocol_message =
    Proposal_Msg "('s, 'e) proposal_message"
  | Vote_Msg vote_message
  | Timeout_Msg "('s, 'e) timeout"
  | RoundRecovery_Msg "('s, 'e) round_recovery_message"
  | NoEndorsement_Msg no_endorsement_message
  | AdvanceRound_Msg "('s, 'e) advance_round_message"

record ('s, 'e) consensus_message =
  cm_version :: nat
  cm_message :: "('s, 'e) protocol_message"

section \<open>Operations\<close>

definition vote_message_new :: "('s, 'e) crypto \<Rightarrow> vote \<Rightarrow> keypair \<Rightarrow> vote_message" where
  "vote_message_new C v key = \<lparr>vmsg_vote = v, vmsg_sig = cert_sign C key (VoteMsg v)\<rparr>"

definition no_endorsement_message_new ::
  "('s, 'e) crypto \<Rightarrow> no_endorsement \<Rightarrow> keypair \<Rightarrow> no_endorsement_message" where
  "no_endorsement_message_new C ne key =
     \<lparr>nemsg_msg = ne, nemsg_signature = cert_sign C key (NoEndorsementMsg ne)\<rparr>"

definition message_get_round :: "('s, 'e) consensus_message \<Rightarrow> round" where
  "message_get_round m =
     (case cm_message m of
        Proposal_Msg p \<Rightarrow> p_proposal_round p
      | Vote_Msg v \<Rightarrow> v_round (vmsg_vote v)
      | Timeout_Msg t \<Rightarrow> ti_round (tm_tminfo t)
      | RoundRecovery_Msg r \<Rightarrow> rr_round r
      | NoEndorsement_Msg n \<Rightarrow> ne_round (nemsg_msg n)
      | AdvanceRound_Msg a \<Rightarrow> round_certificate_round (ar_last_round_certificate a))"

end
