(* ===== verification/Validation.thy ===== *)
theory Validation
  imports Messages Leaders
begin

text \<open>
  Validation of received messages (\<open>monad-consensus/src/validation/signing.rs\<close>) and the cache of
  validated certificates it keeps (\<open>certificate_cache.rs\<close>).

  A check runs on the cache and either succeeds or returns an \<open>Error\<close>; in both cases it leaves the
  cache it has reached, since the source mutates it in place. \<open>check_bind\<close> is the \<open>?\<close> operator.
  The LRU map and the RLP encoding that gives its keys are outside the repository: they are the
  fields of \<open>cache_ops\<close>. So are the validity check of a single signature (\<open>sig_ok\<close>) and the
  recovery of a message's author (\<open>recover\<close>).
\<close>

section \<open>Data\<close>

datatype validation_error =
    InvalidAuthor
  | NotWellFormed
  | InvalidSignature
  | InvalidTcRound
  | DuplicateTcTipRound
  | InsufficientStake
  | ValidatorSetDataUnavailable
  | SignaturesDuplicateNode
  | InvalidVote
  | InvalidVersion
  | InvalidEpoch

record ('s, 'e, 'k, 'l) cache_ops =
  rlp_qc :: "'s quorum_certificate \<Rightarrow> 'k"
  rlp_tc :: "('s, 'e) timeout_certificate \<Rightarrow> 'k"
  rlp_nec :: "'s no_endorsement_certificate \<Rightarrow> 'k"
  lru_new :: "nat \<Rightarrow> 'l"
  lru_put :: "'l \<Rightarrow> 'k \<Rightarrow> 'l"
  lru_contains :: "'l \<Rightarrow> 'k \<Rightarrow> bool"

record 'l certificate_cache =
  qc_lru :: 'l
  tc_lru :: 'l
  nec_lru :: 'l

type_synonym ('l, 'a) checks =
  "'l certificate_cache \<Rightarrow> ((validation_error + 'a) \<times> 'l certificate_cache) panics"

type_synonym epoch_validators =
  "epoch \<Rightarrow> round \<Rightarrow> (validation_error + (validator_set \<times> validator_mapping \<times> node_id)) panics"

section \<open>Checks\<close>

definition check_ok :: "'a \<Rightarrow> ('l, 'a) checks" where
  "check_ok x = (\<lambda>cache. Some (Inr x, cache))"

definition check_lift :: "(validation_error + 'a) panics \<Rightarrow> ('l, 'a) checks" where
  "check_lift p = (\<lambda>cache. map_option (\<lambda>r. (r, cache)) p)"

definition check_that :: "bool \<Rightarrow> validation_error \<Rightarrow> ('l, unit) checks" where
  "check_that b e = (\<lambda>cache. Some (if b then Inr () else Inl e, cache))"

definition check_update :: "('l certificate_cache \<Rightarrow> 'l certificate_cache) \<Rightarrow> ('l, unit) checks" where
  "check_update f = (\<lambda>cache. Some (Inr (), f cache))"

definition check_bind :: "('l, 'a) checks \<Rightarrow> ('a \<Rightarrow> ('l, 'b) checks) \<Rightarrow> ('l, 'b) checks" where
  "check_bind m f = (\<lambda>cache.
     case m cache of
       None \<Rightarrow> None
     | Some (Inl e, cache') \<Rightarrow> Some (Inl e, cache')
     | Some (Inr x, cache') \<Rightarrow> f x cache')"

definition check_then :: "('l, unit) checks \<Rightarrow> ('l, 'b) checks \<Rightarrow> ('l, 'b) checks" where
  "check_then m m' = check_bind m (\<lambda>_. m')"

section \<open>The certificate cache\<close>

definition QC_CACHE_CAPACITY :: nat where
  "QC_CACHE_CAPACITY = 1000"

definition TC_CACHE_CAPACITY :: nat where
  "TC_CACHE_CAPACITY = 1000"

definition NEC_CACHE_CAPACITY :: nat where
  "NEC_CACHE_CAPACITY = 1000"

definition certificate_cache_default :: "('s, 'e, 'k, 'l) cache_ops \<Rightarrow> 'l certificate_cache" where
  "certificate_cache_default K =
     \<lparr>qc_lru = lru_new K QC_CACHE_CAPACITY, tc_lru = lru_new K TC_CACHE_CAPACITY,
      nec_lru = lru_new K NEC_CACHE_CAPACITY\<rparr>"

definition cache_validated_qc ::
  "('s, 'e, 'k, 'l) cache_ops \<Rightarrow> 's quorum_certificate \<Rightarrow> 'l certificate_cache \<Rightarrow> 'l certificate_cache" where
  "cache_validated_qc K qc cache = cache\<lparr>qc_lru := lru_put K (qc_lru cache) (rlp_qc K qc)\<rparr>"

definition qc_is_cached_validated ::
  "('s, 'e, 'k, 'l) cache_ops \<Rightarrow> 'l certificate_cache \<Rightarrow> 's quorum_certificate \<Rightarrow> bool" where
  "qc_is_cached_validated K cache qc = lru_contains K (qc_lru cache) (rlp_qc K qc)"

definition cache_validated_tc ::
  "('s, 'e, 'k, 'l) cache_ops \<Rightarrow> ('s, 'e) timeout_certificate \<Rightarrow> 'l certificate_cache \<Rightarrow>
   'l certificate_cache" where
  "cache_validated_tc K tc cache = cache\<lparr>tc_lru := lru_put K (tc_lru cache) (rlp_tc K tc)\<rparr>"

definition tc_is_cached_validated ::
  "('s, 'e, 'k, 'l) cache_ops \<Rightarrow> 'l certificate_cache \<Rightarrow> ('s, 'e) timeout_certificate \<Rightarrow> bool" where
  "tc_is_cached_validated K cache tc = lru_contains K (tc_lru cache) (rlp_tc K tc)"

definition cache_validated_nec ::
  "('s, 'e, 'k, 'l) cache_ops \<Rightarrow> 's no_endorsement_certificate \<Rightarrow> 'l certificate_cache \<Rightarrow>
   'l certificate_cache" where
  "cache_validated_nec K nec cache = cache\<lparr>nec_lru := lru_put K (nec_lru cache) (rlp_nec K nec)\<rparr>"

definition nec_is_cached_validated ::
  "('s, 'e, 'k, 'l) cache_ops \<Rightarrow> 'l certificate_cache \<Rightarrow> 's no_endorsement_certificate \<Rightarrow> bool" where
  "nec_is_cached_validated K cache nec = lru_contains K (nec_lru cache) (rlp_nec K nec)"

section \<open>Certificates\<close>

definition epoch_to_validators ::
  "epoch_manager \<Rightarrow> validators_epoch_mapping \<Rightarrow> (round \<Rightarrow> (node_id \<times> stake) list \<Rightarrow> node_id panics) \<Rightarrow>
   epoch_validators" where
  "epoch_to_validators em vem election e r =
     try_panic (Some (ok_or (get_epoch em r) InvalidEpoch)) (\<lambda>e'.
     if e \<noteq> e' then Some (Inl InvalidEpoch)
     else try_panic (Some (ok_or (get_val_set vem e) ValidatorSetDataUnavailable)) (\<lambda>vs.
       try_panic (Some (ok_or (get_cert_pubkeys vem e) ValidatorSetDataUnavailable)) (\<lambda>keys.
       do { leader \<leftarrow> election r (validators vs); Some (Inr (vs, keys, leader)) })))"

text \<open>The \<open>match\<close> on \<open>has_super_majority_votes\<close> that the three certificates share.\<close>

definition check_super_majority :: "validator_set \<Rightarrow> node_id list \<Rightarrow> ('l, unit) checks" where
  "check_super_majority vs node_ids =
     check_lift (map_option
       (\<lambda>r. case r of
          Inl (DuplicateValidator _) \<Rightarrow> Inl SignaturesDuplicateNode
        | Inr super_majority \<Rightarrow> if super_majority then Inr () else Inl InsufficientStake)
       (has_super_majority_votes vs node_ids))"

definition check_signatures ::
  "('s, 'e) crypto \<Rightarrow> validator_mapping \<Rightarrow> sc_msg \<Rightarrow> 's \<Rightarrow> validation_error + node_id list" where
  "check_signatures C vm msg s =
     (case sc_verify C s vm msg of Inl _ \<Rightarrow> Inl InvalidSignature | Inr node_ids \<Rightarrow> Inr node_ids)"

definition verify_qc ::
  "('s, 'e, 'k, 'l) cache_ops \<Rightarrow> ('s, 'e) crypto \<Rightarrow> epoch_validators \<Rightarrow> 's quorum_certificate \<Rightarrow>
   ('l, unit) checks" where
  "verify_qc K C e2v qc = (\<lambda>cache.
     if qc_is_cached_validated K cache qc then Some (Inr (), cache)
     else check_bind (check_lift (e2v (qc_epoch qc) (qc_round qc))) (\<lambda>(vs, vm, _).
       if qc_round qc = GENESIS_ROUND
       then check_bind (check_lift (map_option Inr (genesis_qc C))) (\<lambda>g. check_that (qc = g) InvalidSignature)
       else check_bind (check_lift (Some (check_signatures C vm (VoteMsg (qc_info qc)) (qc_signatures qc))))
         (\<lambda>node_ids.
         check_then (check_super_majority vs node_ids) (check_update (cache_validated_qc K qc)))) cache)"

definition verify_nec ::
  "('s, 'e, 'k, 'l) cache_ops \<Rightarrow> ('s, 'e) crypto \<Rightarrow> epoch_validators \<Rightarrow> 's no_endorsement_certificate \<Rightarrow>
   ('l, unit) checks" where
  "verify_nec K C e2v nec = (\<lambda>cache.
     if nec_is_cached_validated K cache nec then Some (Inr (), cache)
     else check_bind (check_lift (e2v (ne_epoch (nec_msg nec)) (ne_round (nec_msg nec)))) (\<lambda>(vs, vm, _).
       check_bind (check_lift (Some (check_signatures C vm (NoEndorsementMsg (nec_msg nec)) (nec_signatures nec))))
         (\<lambda>node_ids.
         check_then (check_super_majority vs node_ids) (check_update (cache_validated_nec K nec)))) cache)"

text \<open>
  The loop of \<open>verify_tc\<close> over the tip rounds: the signers so far, the highest QC and tip rounds,
  and the sets of tip rounds and signers seen. \<open>add_signers\<close> is its inner loop.
\<close>

fun add_signers :: "node_id list \<Rightarrow> node_id set \<Rightarrow> validation_error + node_id set" where
  "add_signers [] seen = Inr seen"
| "add_signers (n # ns) seen =
     (if n \<in> seen then Inl SignaturesDuplicateNode else add_signers ns (insert n seen))"

fun tip_rounds_loop ::
  "('s, 'e) crypto \<Rightarrow> validator_mapping \<Rightarrow> epoch \<Rightarrow> round \<Rightarrow> 's high_tip_round_sig_col_tuple list \<Rightarrow>
   node_id list \<Rightarrow> round \<Rightarrow> round \<Rightarrow> (round \<times> round) set \<Rightarrow> node_id set \<Rightarrow>
   validation_error + (node_id list \<times> round \<times> round)" where
  "tip_rounds_loop C vm e r [] node_ids highest_qc_round highest_tip_round seen_tips seen_nodes =
     Inr (node_ids, highest_qc_round, highest_tip_round)"
| "tip_rounds_loop C vm e r (t # ts) node_ids highest_qc_round highest_tip_round seen_tips seen_nodes =
     (if r \<le> ht_high_qc_round t then Inl InvalidTcRound
      else if (ht_high_qc_round t, ht_high_tip_round t) \<in> seen_tips then Inl DuplicateTcTipRound
      else
        (let highest_qc_round' = (if highest_qc_round < ht_high_qc_round t then ht_high_qc_round t
                                  else highest_qc_round);
             highest_tip_round' = (if highest_tip_round < ht_high_tip_round t then ht_high_tip_round t
                                   else highest_tip_round);
             td = \<lparr>ti_epoch = e, ti_round = r, ti_high_qc_round = ht_high_qc_round t,
                   ti_high_tip_round = ht_high_tip_round t\<rparr>
         in try_then (check_signatures C vm (TimeoutMsg td) (ht_sigs t)) (\<lambda>signers.
            try_then (add_signers signers seen_nodes) (\<lambda>seen_nodes'.
            tip_rounds_loop C vm e r ts (node_ids @ signers) highest_qc_round' highest_tip_round'
              (insert (ht_high_qc_round t, ht_high_tip_round t) seen_tips) seen_nodes'))))"

fun check_highest :: "('s, 'e) high_extend \<Rightarrow> round \<Rightarrow> round \<Rightarrow> ('l, unit) checks" where
  "check_highest (HE_Qc qc) highest_qc_round highest_tip_round =
     check_that (qc_round qc = highest_qc_round \<and> highest_tip_round \<le> highest_qc_round) NotWellFormed"
| "check_highest (HE_Tip tip) highest_qc_round highest_tip_round =
     check_that (tip_round tip = highest_tip_round \<and> highest_qc_round < highest_tip_round) NotWellFormed"

definition no_tip_tc :: "'s no_tip_certificate \<Rightarrow> ('s, 'e) timeout_certificate" where
  "no_tip_tc nt =
     \<lparr>tc_epoch = nt_epoch nt, tc_round = nt_round nt, tc_tip_rounds = nt_tip_rounds nt,
      tc_high_extend = HE_Qc (nt_high_qc nt)\<rparr>"

text \<open>
  The last part of \<open>verify_tip\<close>: a tip of the round after its QC carries no fresh certificate, any
  other one carries a certificate for its round and QC.
\<close>

definition check_fresh :: "('s, 'e) consensus_tip \<Rightarrow> ('l, unit) checks" where
  "check_fresh tip =
     check_bind (check_lift (map_option Inr (round_add (qc_round (h_qc (tip_block_header tip))) 1))) (\<lambda>next_round.
     if tip_round tip = next_round then check_that (tip_fresh_certificate tip = None) NotWellFormed
     else
       (case tip_fresh_certificate tip of
          None \<Rightarrow> check_that False NotWellFormed
        | Some (Nec nec) \<Rightarrow>
            check_that (ne_round (nec_msg nec) = tip_round tip \<and>
                        ne_tip_qc_round (nec_msg nec) = qc_round (h_qc (tip_block_header tip))) NotWellFormed
        | Some (NoTip no_tip) \<Rightarrow>
            check_bind (check_lift (map_option Inr (round_add (nt_round no_tip) 1))) (\<lambda>no_tip_next.
            check_that (no_tip_next = tip_round tip \<and>
                        qc_round (nt_high_qc no_tip) = qc_round (h_qc (tip_block_header tip))) NotWellFormed)))"

definition check_tip_author ::
  "('s, 'e) crypto \<Rightarrow> ('s, 'e) consensus_tip \<Rightarrow> node_id \<Rightarrow> ('l, unit) checks" where
  "check_tip_author C tip leader =
     (case signature_author C tip of
        None \<Rightarrow> check_that False InvalidSignature
      | Some tip_author \<Rightarrow>
          check_that (tip_author = leader \<and> tip_author = h_author (tip_block_header tip)) InvalidAuthor)"

text \<open>
  The three functions call each other: the extension of a timeout certificate may be a tip, and a
  tip may carry a timeout certificate, whose extension is then a QC, so that the recursion ends:
  \<open>verify_depth_he\<close> bounds the calls below an extension.
\<close>

fun verify_depth_he :: "('s, 'e) high_extend \<Rightarrow> nat" where
  "verify_depth_he (HE_Qc _) = 1"
| "verify_depth_he (HE_Tip _) = 4"

function verify_tc ::
    "('s, 'e, 'k, 'l) cache_ops \<Rightarrow> ('s, 'e) crypto \<Rightarrow> epoch_validators \<Rightarrow> ('s, 'e) timeout_certificate \<Rightarrow>
     ('l, unit) checks"
  and verify_high_extend ::
    "('s, 'e, 'k, 'l) cache_ops \<Rightarrow> ('s, 'e) crypto \<Rightarrow> epoch_validators \<Rightarrow> ('s, 'e) high_extend \<Rightarrow>
     ('l, unit) checks"
  and verify_tip ::
    "('s, 'e, 'k, 'l) cache_ops \<Rightarrow> ('s, 'e) crypto \<Rightarrow> epoch_validators \<Rightarrow> ('s, 'e) consensus_tip \<Rightarrow>
     ('l, unit) checks"
where
  "verify_tc K C e2v tc = (\<lambda>cache.
     if tc_is_cached_validated K cache tc then Some (Inr (), cache)
     else check_bind (check_lift (e2v (tc_epoch tc) (tc_round tc))) (\<lambda>(vs, vm, _).
       check_bind (check_lift (Some (tip_rounds_loop C vm (tc_epoch tc) (tc_round tc) (tc_tip_rounds tc)
                     [] GENESIS_ROUND GENESIS_ROUND {} {})))
         (\<lambda>(node_ids, highest_qc_round, highest_tip_round).
         check_then (check_super_majority vs node_ids)
         (check_then (verify_high_extend K C e2v (tc_high_extend tc))
         (check_then (check_highest (tc_high_extend tc) highest_qc_round highest_tip_round)
           (check_update (cache_validated_tc K tc)))))) cache)"
| "verify_high_extend K C e2v (HE_Qc qc) = verify_qc K C e2v qc"
| "verify_high_extend K C e2v (HE_Tip tip) = verify_tip K C e2v tip"
| "verify_tip K C e2v tip =
     check_bind (check_lift (e2v (h_epoch (tip_block_header tip)) (tip_round tip))) (\<lambda>(_, _, leader).
     check_then (check_tip_author C tip leader)
     (check_then (verify_qc K C e2v (h_qc (tip_block_header tip)))
     (check_then
        (case tip_fresh_certificate tip of
           Some (Nec nec) \<Rightarrow> verify_nec K C e2v nec
         | Some (NoTip no_tip) \<Rightarrow> verify_tc K C e2v (no_tip_tc no_tip)
         | None \<Rightarrow> check_ok ())
        (check_fresh tip))))"
  by pat_completeness auto

termination
  by (relation "measure (\<lambda>x. case x of
        Inl (_, _, _, tc) \<Rightarrow> Suc (verify_depth_he (tc_high_extend tc))
      | Inr (Inl (_, _, _, he)) \<Rightarrow> verify_depth_he he
      | Inr (Inr _) \<Rightarrow> 3)")
    (simp_all add: no_tip_tc_def)

declare verify_tc.simps [simp del] and verify_tip.simps [simp del]

section \<open>Messages\<close>

text \<open>Each \<open>verify_epoch\<close> compares the epoch of the message with the one recorded for its round.\<close>

definition verify_epoch :: "epoch_manager \<Rightarrow> round \<Rightarrow> epoch \<Rightarrow> ('l, unit) checks" where
  "verify_epoch em r e = check_that (get_epoch em r = Some e) InvalidEpoch"

definition check_next_round :: "round \<Rightarrow> round \<Rightarrow> validation_error \<Rightarrow> ('l, unit) checks" where
  "check_next_round r prev err =
     check_bind (check_lift (map_option Inr (round_add prev 1))) (\<lambda>next_round. check_that (r = next_round) err)"

definition well_formed_proposal :: "('s, 'e) crypto \<Rightarrow> ('s, 'e) proposal_message \<Rightarrow> ('l, unit) checks" where
  "well_formed_proposal C p =
     (let h = tip_block_header (p_tip p)
      in check_then (check_that (h_block_body_id h = body_id C (p_block_body p)) NotWellFormed)
        (check_bind (check_lift (map_option Inr (round_add (qc_round (h_qc h)) 1))) (\<lambda>next_round.
         if p_proposal_round p = next_round then check_that (p_last_round_tc p = None) NotWellFormed
         else
           (case p_last_round_tc p of
              None \<Rightarrow> check_that False NotWellFormed
            | Some tc \<Rightarrow>
                (case tc_high_extend tc of
                   HE_Qc tc_qc \<Rightarrow> check_that (qc_round tc_qc = qc_round (h_qc h)) NotWellFormed
                 | HE_Tip tc_tip \<Rightarrow>
                     if tc_tip = p_tip p then check_ok ()
                     else check_that (p_proposal_round p = h_block_round h \<and>
                            qc_round (h_qc (tip_block_header tc_tip)) = qc_round (h_qc h)) NotWellFormed)))))"

definition proposal_validate ::
  "('s, 'e, 'k, 'l) cache_ops \<Rightarrow> ('s, 'e) crypto \<Rightarrow> epoch_manager \<Rightarrow> validators_epoch_mapping \<Rightarrow>
   (round \<Rightarrow> (node_id \<times> stake) list \<Rightarrow> node_id panics) \<Rightarrow> ('s, 'e) proposal_message \<Rightarrow> ('l, unit) checks" where
  "proposal_validate K C em vem election p =
     (let e2v = epoch_to_validators em vem election
      in check_then
           (case p_last_round_tc p of
              None \<Rightarrow> check_ok ()
            | Some tc \<Rightarrow> check_then (verify_tc K C e2v tc)
                (check_next_round (p_proposal_round p) (tc_round tc) NotWellFormed))
         (check_then (verify_tip K C e2v (p_tip p))
         (check_then (well_formed_proposal C p)
           (verify_epoch em (p_proposal_round p) (p_proposal_epoch p)))))"

definition vote_validate ::
  "(signature \<Rightarrow> bool) \<Rightarrow> epoch_manager \<Rightarrow> vote_message \<Rightarrow> ('l, unit) checks" where
  "vote_validate sig_ok em v =
     check_then (check_that (sig_ok (vmsg_sig v)) InvalidSignature)
       (verify_epoch em (v_round (vmsg_vote v)) (v_epoch (vmsg_vote v)))"

definition well_formed_timeout :: "('s, 'e) timeout \<Rightarrow> ('l, unit) checks" where
  "well_formed_timeout t =
     check_bind (check_lift (map_option Inr (round_add (qc_round (high_extend_vote_qc (tm_high_extend t))) 1)))
       (\<lambda>next_round.
       if ti_round (tm_tminfo t) = next_round then check_that (tm_last_round_certificate t = None) NotWellFormed
       else check_that (tm_last_round_certificate t \<noteq> None) NotWellFormed)"

definition verify_round_certificate ::
  "('s, 'e, 'k, 'l) cache_ops \<Rightarrow> ('s, 'e) crypto \<Rightarrow> epoch_validators \<Rightarrow> ('s, 'e) round_certificate \<Rightarrow>
   ('l, unit) checks" where
  "verify_round_certificate K C e2v rc =
     (case rc of RC_Tc tc \<Rightarrow> verify_tc K C e2v tc | RC_Qc qc \<Rightarrow> verify_qc K C e2v qc)"

fun check_timeout_rounds :: "timeout_info \<Rightarrow> ('s, 'e) high_extend_vote \<Rightarrow> ('l, unit) checks" where
  "check_timeout_rounds ti (HEV_Qc qc) =
     check_that (ti_high_tip_round ti = GENESIS_ROUND \<and> ti_high_qc_round ti = qc_round qc) NotWellFormed"
| "check_timeout_rounds ti (HEV_Tip tip _) =
     check_that (ti_high_tip_round ti = tip_round tip \<and> ti_high_qc_round ti < tip_round tip) NotWellFormed"

definition timeout_validate ::
  "('s, 'e, 'k, 'l) cache_ops \<Rightarrow> ('s, 'e) crypto \<Rightarrow> (signature \<Rightarrow> bool) \<Rightarrow> epoch_manager \<Rightarrow>
   validators_epoch_mapping \<Rightarrow> (round \<Rightarrow> (node_id \<times> stake) list \<Rightarrow> node_id panics) \<Rightarrow>
   ('s, 'e) timeout \<Rightarrow> ('l, unit) checks" where
  "timeout_validate K C sig_ok em vem election t =
     (let e2v = epoch_to_validators em vem election
      in check_then (check_that (sig_ok (tm_timeout_signature t)) InvalidSignature)
         (check_then
           (case tm_last_round_certificate t of
              None \<Rightarrow> check_ok ()
            | Some rc \<Rightarrow> check_then (verify_round_certificate K C e2v rc)
                (check_next_round (ti_round (tm_tminfo t)) (round_certificate_round rc) NotWellFormed))
         (check_then (verify_high_extend K C e2v (high_extend_from_vote (tm_high_extend t)))
         (check_then (check_timeout_rounds (tm_tminfo t) (tm_high_extend t))
         (check_then (well_formed_timeout t)
           (verify_epoch em (ti_round (tm_tminfo t)) (ti_epoch (tm_tminfo t))))))))"

definition well_formed_round_recovery :: "('s, 'e) round_recovery_message \<Rightarrow> ('l, unit) checks" where
  "well_formed_round_recovery m =
     check_then (check_next_round (rr_round m) (tc_round (rr_tc m)) InvalidTcRound)
       (case tc_high_extend (rr_tc m) of
          HE_Qc _ \<Rightarrow> check_that False NotWellFormed
        | HE_Tip _ \<Rightarrow> check_ok ())"

definition round_recovery_validate ::
  "('s, 'e, 'k, 'l) cache_ops \<Rightarrow> ('s, 'e) crypto \<Rightarrow> epoch_manager \<Rightarrow> validators_epoch_mapping \<Rightarrow>
   (round \<Rightarrow> (node_id \<times> stake) list \<Rightarrow> node_id panics) \<Rightarrow> ('s, 'e) round_recovery_message \<Rightarrow>
   ('l, unit) checks" where
  "round_recovery_validate K C em vem election m =
     check_then (verify_tc K C (epoch_to_validators em vem election) (rr_tc m))
     (check_then (well_formed_round_recovery m)
       (verify_epoch em (rr_round m) (rr_epoch m)))"

definition no_endorsement_validate :: "epoch_manager \<Rightarrow> no_endorsement_message \<Rightarrow> ('l, unit) checks" where
  "no_endorsement_validate em m = verify_epoch em (ne_round (nemsg_msg m)) (ne_epoch (nemsg_msg m))"

definition advance_round_validate ::
  "('s, 'e, 'k, 'l) cache_ops \<Rightarrow> ('s, 'e) crypto \<Rightarrow> epoch_manager \<Rightarrow> validators_epoch_mapping \<Rightarrow>
   (round \<Rightarrow> (node_id \<times> stake) list \<Rightarrow> node_id panics) \<Rightarrow> ('s, 'e) advance_round_message \<Rightarrow>
   ('l, unit) checks" where
  "advance_round_validate K C em vem election m =
     verify_round_certificate K C (epoch_to_validators em vem election) (ar_last_round_certificate m)"

definition message_validate ::
  "('s, 'e, 'k, 'l) cache_ops \<Rightarrow> ('s, 'e) crypto \<Rightarrow> (signature \<Rightarrow> bool) \<Rightarrow> epoch_manager \<Rightarrow>
   validators_epoch_mapping \<Rightarrow> (round \<Rightarrow> (node_id \<times> stake) list \<Rightarrow> node_id panics) \<Rightarrow> nat \<Rightarrow>
   ('s, 'e) consensus_message \<Rightarrow> ('l, ('s, 'e) consensus_message) checks" where
  "message_validate K C sig_ok em vem election client_version m =
     check_then (check_that (cm_version m = client_version) InvalidVersion)
     (check_then
       (case cm_message m of
          Proposal_Msg p \<Rightarrow> proposal_validate K C em vem election p
        | Vote_Msg v \<Rightarrow> vote_validate sig_ok em v
        | Timeout_Msg t \<Rightarrow> timeout_validate K C sig_ok em vem election t
        | RoundRecovery_Msg r \<Rightarrow> round_recovery_validate K C em vem election r
        | NoEndorsement_Msg n \<Rightarrow> no_endorsement_validate em n
        | AdvanceRound_Msg a \<Rightarrow> advance_round_validate K C em vem election a)
       (check_ok m))"

text \<open>\<open>Unverified::verify\<close>: the author recovered from the signature is a validator of the round.\<close>

definition valid_pubkey :: "node_id \<Rightarrow> (node_id \<times> stake) list \<Rightarrow> validation_error + node_id" where
  "valid_pubkey n vals = (if map_of vals n \<noteq> None then Inr n else Inl InvalidAuthor)"

definition message_verify ::
  "(signature \<Rightarrow> ('s, 'e) consensus_message \<Rightarrow> node_id option) \<Rightarrow> epoch_manager \<Rightarrow> validators_epoch_mapping \<Rightarrow>
   ('s, 'e) consensus_message \<Rightarrow> signature \<Rightarrow> validation_error + node_id" where
  "message_verify recover em vem m author_signature =
     try_then (ok_or (get_epoch em (message_get_round m)) InvalidEpoch) (\<lambda>e.
     try_then (ok_or (get_val_set vem e) ValidatorSetDataUnavailable) (\<lambda>vs.
     try_then (ok_or (recover author_signature m) InvalidSignature) (\<lambda>author.
     valid_pubkey author (validators vs))))"

section \<open>What a certificate proves\<close>

text \<open>Valid signatures over a message by validators with more than two thirds of the stake.\<close>

definition quorum_signed ::
  "(signature \<Rightarrow> sc_msg \<Rightarrow> cert_pubkey \<Rightarrow> bool) \<Rightarrow> validator_set \<Rightarrow> validator_mapping \<Rightarrow> sc_msg \<Rightarrow> bool" where
  "quorum_signed valid vs vm msg \<longleftrightarrow>
     (\<exists>ns. is_quorum vs ns \<and> (\<forall>n \<in> set ns. \<exists>sig. signer_valid valid vm msg n sig))"

text \<open>The validators of a round: its epoch is known and so are the epoch's validators and keys.\<close>

definition validators_of ::
  "epoch_manager \<Rightarrow> validators_epoch_mapping \<Rightarrow> epoch \<Rightarrow> round \<Rightarrow> validator_set \<Rightarrow> validator_mapping \<Rightarrow> bool" where
  "validators_of em vem e r vs vm \<longleftrightarrow> get_epoch em r = Some e \<and> map_of vem e = Some (vs, vm)"

record ('s, 'e) validation_env =
  ve_crypto :: "('s, 'e) crypto"
  ve_valid :: "signature \<Rightarrow> sc_msg \<Rightarrow> cert_pubkey \<Rightarrow> bool"
  ve_em :: epoch_manager
  ve_vem :: validators_epoch_mapping
  ve_election :: "round \<Rightarrow> (node_id \<times> stake) list \<Rightarrow> node_id panics"

abbreviation ve_e2v :: "('s, 'e) validation_env \<Rightarrow> epoch_validators" where
  "ve_e2v V \<equiv> epoch_to_validators (ve_em V) (ve_vem V) (ve_election V)"

definition qc_certified :: "('s, 'e) validation_env \<Rightarrow> 's quorum_certificate \<Rightarrow> bool" where
  "qc_certified V qc \<longleftrightarrow>
     (\<exists>vs vm. validators_of (ve_em V) (ve_vem V) (qc_epoch qc) (qc_round qc) vs vm \<and>
        (if qc_round qc = GENESIS_ROUND then genesis_qc (ve_crypto V) = Some qc
         else quorum_signed (ve_valid V) vs vm (VoteMsg (qc_info qc))))"

definition nec_certified :: "('s, 'e) validation_env \<Rightarrow> 's no_endorsement_certificate \<Rightarrow> bool" where
  "nec_certified V nec \<longleftrightarrow>
     (\<exists>vs vm. validators_of (ve_em V) (ve_vem V) (ne_epoch (nec_msg nec)) (ne_round (nec_msg nec)) vs vm \<and>
        quorum_signed (ve_valid V) vs vm (NoEndorsementMsg (nec_msg nec)))"

definition tuple_info :: "epoch \<Rightarrow> round \<Rightarrow> 's high_tip_round_sig_col_tuple \<Rightarrow> timeout_info" where
  "tuple_info e r t =
     \<lparr>ti_epoch = e, ti_round = r, ti_high_qc_round = ht_high_qc_round t, ti_high_tip_round = ht_high_tip_round t\<rparr>"

text \<open>The extension is the highest one its signers reported: a QC wins against a tip of its round.\<close>

definition highest_reported :: "'s high_tip_round_sig_col_tuple list \<Rightarrow> ('s, 'e) high_extend \<Rightarrow> bool" where
  "highest_reported ts he \<longleftrightarrow>
     (case he of
        HE_Qc qc \<Rightarrow>
          (\<forall>t \<in> set ts. ht_high_qc_round t \<le> qc_round qc \<and> ht_high_tip_round t \<le> qc_round qc) \<and>
          (qc_round qc = GENESIS_ROUND \<or> (\<exists>t \<in> set ts. ht_high_qc_round t = qc_round qc))
      | HE_Tip tip \<Rightarrow>
          (\<forall>t \<in> set ts. ht_high_qc_round t < tip_round tip \<and> ht_high_tip_round t \<le> tip_round tip) \<and>
          (\<exists>t \<in> set ts. ht_high_tip_round t = tip_round tip))"

definition timeouts_certified :: "('s, 'e) validation_env \<Rightarrow> ('s, 'e) timeout_certificate \<Rightarrow> bool" where
  "timeouts_certified V tc \<longleftrightarrow>
     (\<exists>vs vm signers. validators_of (ve_em V) (ve_vem V) (tc_epoch tc) (tc_round tc) vs vm \<and>
        is_quorum vs (map fst signers) \<and>
        (\<forall>(n, t) \<in> set signers. t \<in> set (tc_tip_rounds tc) \<and>
           (\<exists>sig. signer_valid (ve_valid V) vm (TimeoutMsg (tuple_info (tc_epoch tc) (tc_round tc) t)) n sig)) \<and>
        (\<forall>t \<in> set (tc_tip_rounds tc). ht_high_qc_round t < tc_round tc) \<and>
        highest_reported (tc_tip_rounds tc) (tc_high_extend tc))"

definition fresh_certified :: "('s, 'e) validation_env \<Rightarrow> ('s, 'e) consensus_tip \<Rightarrow> bool" where
  "fresh_certified V tip \<longleftrightarrow>
     (if tip_round tip = qc_round (h_qc (tip_block_header tip)) + 1 then tip_fresh_certificate tip = None
      else
        (case tip_fresh_certificate tip of
           None \<Rightarrow> False
         | Some (Nec nec) \<Rightarrow>
             nec_certified V nec \<and> ne_round (nec_msg nec) = tip_round tip \<and>
             ne_tip_qc_round (nec_msg nec) = qc_round (h_qc (tip_block_header tip))
         | Some (NoTip nt) \<Rightarrow>
             timeouts_certified V (no_tip_tc nt) \<and> qc_certified V (nt_high_qc nt) \<and>
             nt_round nt + 1 = tip_round tip \<and>
             qc_round (nt_high_qc nt) = qc_round (h_qc (tip_block_header tip))))"

definition tip_certified :: "('s, 'e) validation_env \<Rightarrow> ('s, 'e) consensus_tip \<Rightarrow> bool" where
  "tip_certified V tip \<longleftrightarrow>
     (\<exists>vs vm leader.
        validators_of (ve_em V) (ve_vem V) (h_epoch (tip_block_header tip)) (tip_round tip) vs vm \<and>
        ve_election V (tip_round tip) (validators vs) = Some leader \<and>
        signature_author (ve_crypto V) tip = Some leader \<and> h_author (tip_block_header tip) = leader) \<and>
     qc_certified V (h_qc (tip_block_header tip)) \<and> fresh_certified V tip"

fun high_extend_certified :: "('s, 'e) validation_env \<Rightarrow> ('s, 'e) high_extend \<Rightarrow> bool" where
  "high_extend_certified V (HE_Qc qc) \<longleftrightarrow> qc_certified V qc"
| "high_extend_certified V (HE_Tip tip) \<longleftrightarrow> tip_certified V tip"

definition tc_certified :: "('s, 'e) validation_env \<Rightarrow> ('s, 'e) timeout_certificate \<Rightarrow> bool" where
  "tc_certified V tc \<longleftrightarrow> timeouts_certified V tc \<and> high_extend_certified V (tc_high_extend tc)"

text \<open>The invariant of the cache: what it holds has been certified.\<close>

definition cache_sound ::
  "('s, 'e, 'k, 'l) cache_ops \<Rightarrow> ('s, 'e) validation_env \<Rightarrow> 'l certificate_cache \<Rightarrow> bool" where
  "cache_sound K V cache \<longleftrightarrow>
     (\<forall>qc. qc_is_cached_validated K cache qc \<longrightarrow> qc_certified V qc) \<and>
     (\<forall>tc. tc_is_cached_validated K cache tc \<longrightarrow> tc_certified V tc) \<and>
     (\<forall>nec. nec_is_cached_validated K cache nec \<longrightarrow> nec_certified V nec)"

text \<open>
  What is relied on of the code outside the repository: RLP encodings determine what they encode,
  and an LRU map holds nothing that was not put into it.
\<close>

definition cache_ops_ok :: "('s, 'e, 'k, 'l) cache_ops \<Rightarrow> bool" where
  "cache_ops_ok K \<longleftrightarrow>
     inj (rlp_qc K) \<and> inj (rlp_tc K) \<and> inj (rlp_nec K) \<and>
     (\<forall>n k. \<not> lru_contains K (lru_new K n) k) \<and>
     (\<forall>l k k'. lru_contains K (lru_put K l k) k' \<longrightarrow> k' = k \<or> lru_contains K l k')"

text \<open>
  The validator sets are well formed and elect a leader in every round, and no quorum has signed
  for the last representable round.
\<close>

definition validation_env_ok :: "('s, 'e) validation_env \<Rightarrow> bool" where
  "validation_env_ok V \<longleftrightarrow>
     signature_collection (ve_crypto V) (ve_valid V) \<and>
     (\<forall>(e, vs, vm) \<in> set (ve_vem V). vs_wf vs \<and> bt_wf vm \<and> (\<forall>r. ve_election V r (validators vs) \<noteq> None)) \<and>
     (\<forall>qc. qc_certified V qc \<longrightarrow> qc_round qc < u64_max) \<and>
     (\<forall>tc. timeouts_certified V tc \<longrightarrow> tc_round tc < u64_max)"

section \<open>Total correctness of checks\<close>

text \<open>
  From a cache with \<open>I\<close> the check does not panic, leaves a cache with \<open>I\<close> whatever its result, and
  establishes \<open>P\<close> of the value it succeeds with.
\<close>

definition checks :: "('l certificate_cache \<Rightarrow> bool) \<Rightarrow> ('l, 'a) checks \<Rightarrow> ('a \<Rightarrow> bool) \<Rightarrow> bool" where
  "checks I m P \<longleftrightarrow>
     (\<forall>cache. I cache \<longrightarrow>
        (\<exists>r cache'. m cache = Some (r, cache') \<and> I cache' \<and> (\<forall>x. r = Inr x \<longrightarrow> P x)))"

lemma checks_ok: "P x \<Longrightarrow> checks I (check_ok x) P"
  by (simp add: checks_def check_ok_def)

lemma checks_lift: "p \<noteq> None \<Longrightarrow> (\<And>x. p = Some (Inr x) \<Longrightarrow> P x) \<Longrightarrow> checks I (check_lift p) P"
  by (auto simp: checks_def check_lift_def)

lemma checks_that: "(b \<Longrightarrow> P ()) \<Longrightarrow> checks I (check_that b e) P"
  by (simp add: checks_def check_that_def)

lemma checks_update: "(\<And>cache. I cache \<Longrightarrow> I (f cache)) \<Longrightarrow> P () \<Longrightarrow> checks I (check_update f) P"
  by (simp add: checks_def check_update_def)

lemma checks_bind:
  assumes "checks I m Q" and "\<And>x. Q x \<Longrightarrow> checks I (f x) P"
  shows "checks I (check_bind m f) P"
  unfolding checks_def
proof (intro allI impI)
  fix cache
  assume "I cache"
  then obtain r cache' where m: "m cache = Some (r, cache')" "I cache'" "\<And>x. r = Inr x \<Longrightarrow> Q x"
    using assms(1) unfolding checks_def by blast
  show "\<exists>r cache'. check_bind m f cache = Some (r, cache') \<and> I cache' \<and> (\<forall>x. r = Inr x \<longrightarrow> P x)"
  proof (cases r)
    case (Inl e)
    then show ?thesis
      using m by (simp add: check_bind_def)
  next
    case (Inr x)
    then show ?thesis
      using m assms(2) [of x] unfolding checks_def by (simp add: check_bind_def)
  qed
qed

lemma checks_then:
  assumes "checks I m (\<lambda>_. Q)" and "Q \<Longrightarrow> checks I m' P"
  shows "checks I (check_then m m') P"
  unfolding check_then_def using assms by (intro checks_bind [where Q = "\<lambda>_. Q"])

lemma checks_conseq: "checks I m Q \<Longrightarrow> (\<And>x. Q x \<Longrightarrow> P x) \<Longrightarrow> checks I m P"
  unfolding checks_def by blast

text \<open>A check that starts by looking into the cache.\<close>

lemma checks_cached:
  assumes "\<And>cache. I cache \<Longrightarrow> b cache \<Longrightarrow> P ()" and "checks I m P"
  shows "checks I (\<lambda>cache. if b cache then Some (Inr (), cache) else m cache) P"
  using assms unfolding checks_def by auto

section \<open>Accepted certificates are certified\<close>

lemma epoch_to_validators_checks:
  assumes "validation_env_ok V"
  shows "checks I (check_lift (ve_e2v V e r))
    (\<lambda>(vs, vm, leader). validators_of (ve_em V) (ve_vem V) e r vs vm \<and> vs_wf vs \<and> bt_wf vm \<and>
       ve_election V r (validators vs) = Some leader)"
proof (cases "get_epoch (ve_em V) r = Some e \<and> map_of (ve_vem V) e \<noteq> None")
  case True
  then obtain vs vm where k: "get_epoch (ve_em V) r = Some e" "map_of (ve_vem V) e = Some (vs, vm)"
    by auto
  then have "(e, vs, vm) \<in> set (ve_vem V)"
    by (simp add: map_of_SomeD)
  then have wf: "vs_wf vs" "bt_wf vm" and l: "ve_election V r (validators vs) \<noteq> None"
    using assms unfolding validation_env_ok_def by fast+
  obtain leader where leader: "ve_election V r (validators vs) = Some leader"
    using l by blast
  have "ve_e2v V e r = Some (Inr (vs, vm, leader))"
    by (simp add: epoch_to_validators_def k get_val_set_def get_cert_pubkeys_def leader)
  then show ?thesis
    by (intro checks_lift) (auto simp: validators_of_def k wf leader)
next
  case False
  have "\<exists>err. ve_e2v V e r = Some (Inl err)"
  proof (cases "get_epoch (ve_em V) r")
    case (Some e')
    then show ?thesis
    proof (cases "e = e'")
      case True
      then have "map_of (ve_vem V) e = None"
        using False Some by blast
      then show ?thesis
        using True Some by (simp add: epoch_to_validators_def get_val_set_def)
    qed (simp add: epoch_to_validators_def)
  qed (simp add: epoch_to_validators_def)
  then show ?thesis
    by (intro checks_lift) auto
qed

text \<open>The validators of the round are looked up first.\<close>

lemma checks_e2v:
  assumes "validation_env_ok V"
    and "\<And>vs vm leader. \<lbrakk>validators_of (ve_em V) (ve_vem V) e r vs vm; vs_wf vs; bt_wf vm;
      ve_election V r (validators vs) = Some leader\<rbrakk> \<Longrightarrow> checks I (f (vs, vm, leader)) P"
  shows "checks I (check_bind (check_lift (ve_e2v V e r)) f) P"
  by (rule checks_bind [OF epoch_to_validators_checks [OF assms(1)]]) (use assms(2) in auto)

lemma check_super_majority_checks:
  assumes "vs_wf vs" and "distinct ns"
  shows "checks I (check_super_majority vs ns) (\<lambda>_. is_quorum vs ns)"
proof -
  show ?thesis
    unfolding check_super_majority_def has_super_majority_votes_total [OF assms]
    by (rule checks_lift) (auto split: if_splits)
qed

lemma check_signatures_sound:
  assumes "validation_env_ok V" and "bt_wf vm"
    and "check_signatures (ve_crypto V) vm msg s = Inr ns"
  shows "distinct ns \<and> (\<forall>n \<in> set ns. \<exists>sig. signer_valid (ve_valid V) vm msg n sig)"
proof -
  have "sc_verify (ve_crypto V) s vm msg = Inr ns"
    using assms(3) by (simp add: check_signatures_def split: sum.splits)
  moreover have "signature_collection (ve_crypto V) (ve_valid V)"
    using assms(1) by (simp add: validation_env_ok_def)
  ultimately show ?thesis
    using assms(2) signature_collection.verify_sound [of "ve_crypto V" "ve_valid V" vm s msg ns] by simp
qed

lemma genesis_checks:
  assumes "validation_env_ok V"
  shows "checks I (check_lift (map_option Inr (genesis_qc (ve_crypto V)))) (\<lambda>g. genesis_qc (ve_crypto V) = Some g)"
proof -
  obtain g where "genesis_qc (ve_crypto V) = Some g"
    using assms signature_collection.genesis_qc_defined unfolding validation_env_ok_def by blast
  then show ?thesis
    by (intro checks_lift) auto
qed

lemma cache_sound_update:
  assumes "cache_ops_ok K" and "cache_sound K V cache"
  shows "qc_certified V qc \<Longrightarrow> cache_sound K V (cache_validated_qc K qc cache)"
    and "tc_certified V tc \<Longrightarrow> cache_sound K V (cache_validated_tc K tc cache)"
    and "nec_certified V nec \<Longrightarrow> cache_sound K V (cache_validated_nec K nec cache)"
proof -
  note put = assms(1) [unfolded cache_ops_ok_def, THEN conjunct2, THEN conjunct2, THEN conjunct2, THEN conjunct2, rule_format]
  have "inj (rlp_qc K)" "inj (rlp_tc K)" "inj (rlp_nec K)"
    using assms(1) by (simp_all add: cache_ops_ok_def)
  note keys = this [THEN inj_eq]
  note sound = assms(2) [unfolded cache_sound_def qc_is_cached_validated_def tc_is_cached_validated_def
    nec_is_cached_validated_def]
  show "cache_sound K V (cache_validated_qc K qc cache)" if "qc_certified V qc"
    unfolding cache_sound_def qc_is_cached_validated_def tc_is_cached_validated_def nec_is_cached_validated_def
    using sound that by (auto simp: cache_validated_qc_def keys dest!: put)
  show "cache_sound K V (cache_validated_tc K tc cache)" if "tc_certified V tc"
    unfolding cache_sound_def qc_is_cached_validated_def tc_is_cached_validated_def nec_is_cached_validated_def
    using sound that by (auto simp: cache_validated_tc_def keys dest!: put)
  show "cache_sound K V (cache_validated_nec K nec cache)" if "nec_certified V nec"
    unfolding cache_sound_def qc_is_cached_validated_def tc_is_cached_validated_def nec_is_cached_validated_def
    using sound that by (auto simp: cache_validated_nec_def keys dest!: put)
qed

text \<open>The signatures of a QC or a NEC are checked, then the stake of their signers.\<close>

lemma quorum_checks:
  assumes V: "validation_env_ok V" and wf: "vs_wf vs" "bt_wf vm"
    and P: "quorum_signed (ve_valid V) vs vm msg \<Longrightarrow> P"
    and upd: "\<And>cache. P \<Longrightarrow> I cache \<Longrightarrow> I (f cache)"
  shows "checks I
    (check_bind (check_lift (Some (check_signatures (ve_crypto V) vm msg s))) (\<lambda>node_ids.
       check_then (check_super_majority vs node_ids) (check_update f))) (\<lambda>_. P)"
proof (rule checks_bind [where Q = "\<lambda>ns. check_signatures (ve_crypto V) vm msg s = Inr ns"])
  fix ns
  assume ns: "check_signatures (ve_crypto V) vm msg s = Inr ns"
  note signed = check_signatures_sound [OF V wf(2) ns]
  show "checks I (check_then (check_super_majority vs ns) (check_update f)) (\<lambda>_. P)"
  proof (rule checks_then [OF check_super_majority_checks [OF wf(1)]])
    assume "is_quorum vs ns"
    then have P
      using signed by (intro P) (auto simp: quorum_signed_def)
    then show "checks I (check_update f) (\<lambda>_. P)"
      by (intro checks_update upd)
  qed (use signed in simp)
qed (auto intro: checks_lift)

lemma verify_qc_checks:
  assumes V: "validation_env_ok V" and K: "cache_ops_ok K"
  shows "checks (cache_sound K V) (verify_qc K (ve_crypto V) (ve_e2v V) qc) (\<lambda>_. qc_certified V qc)"
  unfolding verify_qc_def
proof (rule checks_cached, goal_cases)
  case (1 cache)
  then show ?case
    by (simp add: cache_sound_def)
next
  case 2
  show ?case
  proof (rule checks_e2v [OF V], unfold prod.case)
    fix vs vm leader
    assume v: "validators_of (ve_em V) (ve_vem V) (qc_epoch qc) (qc_round qc) vs vm" and wf: "vs_wf vs" "bt_wf vm"
    show "checks (cache_sound K V)
       (if qc_round qc = GENESIS_ROUND
        then check_bind (check_lift (map_option Inr (genesis_qc (ve_crypto V))))
               (\<lambda>g. check_that (qc = g) InvalidSignature)
        else check_bind (check_lift (Some (check_signatures (ve_crypto V) vm (VoteMsg (qc_info qc)) (qc_signatures qc))))
               (\<lambda>node_ids. check_then (check_super_majority vs node_ids) (check_update (cache_validated_qc K qc))))
       (\<lambda>_. qc_certified V qc)"
    proof (cases "qc_round qc = GENESIS_ROUND")
      case True
      then show ?thesis
        using v by (auto intro!: checks_bind [OF genesis_checks [OF V]] checks_that simp: qc_certified_def)
    next
      case False
      then have "qc_certified V qc" if "quorum_signed (ve_valid V) vs vm (VoteMsg (qc_info qc))"
        using v that by (auto simp: qc_certified_def)
      then show ?thesis
        using False cache_sound_update(1) [OF K]
        by (simp only: if_False) (intro quorum_checks [OF V wf])
    qed
  qed
qed

lemma verify_nec_checks:
  assumes V: "validation_env_ok V" and K: "cache_ops_ok K"
  shows "checks (cache_sound K V) (verify_nec K (ve_crypto V) (ve_e2v V) nec) (\<lambda>_. nec_certified V nec)"
  unfolding verify_nec_def
proof (rule checks_cached, goal_cases)
  case (1 cache)
  then show ?case
    by (simp add: cache_sound_def)
next
  case 2
  show ?case
  proof (rule checks_e2v [OF V], unfold prod.case, rule quorum_checks [OF V])
    fix vs vm
    assume "validators_of (ve_em V) (ve_vem V) (ne_epoch (nec_msg nec)) (ne_round (nec_msg nec)) vs vm"
      and "quorum_signed (ve_valid V) vs vm (NoEndorsementMsg (nec_msg nec))"
    then show "nec_certified V nec"
      by (auto simp: nec_certified_def)
  qed (use cache_sound_update(3) [OF K] in auto)
qed

text \<open>The loop over the tip rounds collects the signers of all tuples and the highest rounds.\<close>

lemma add_signers_ok:
  "add_signers ns seen = Inr seen' \<Longrightarrow> seen' = seen \<union> set ns \<and> distinct ns \<and> set ns \<inter> seen = {}"
  by (induction ns seen rule: add_signers.induct) (auto split: if_splits)

lemma tip_rounds_loop_ok:
  assumes V: "validation_env_ok V" and vm: "bt_wf vm"
    and "tip_rounds_loop (ve_crypto V) vm e r ts ns hq ht seen_tips (set ns) = Inr (ns', hq', ht')"
    and "distinct ns"
  shows "distinct ns' \<and>
    (\<forall>n \<in> set ns'. n \<in> set ns \<or>
       (\<exists>t \<in> set ts. \<exists>sig. signer_valid (ve_valid V) vm (TimeoutMsg (tuple_info e r t)) n sig)) \<and>
    (\<forall>t \<in> set ts. ht_high_qc_round t < r \<and> ht_high_qc_round t \<le> hq' \<and> ht_high_tip_round t \<le> ht') \<and>
    hq \<le> hq' \<and> (hq' = hq \<or> (\<exists>t \<in> set ts. ht_high_qc_round t = hq')) \<and>
    ht \<le> ht' \<and> (ht' = ht \<or> (\<exists>t \<in> set ts. ht_high_tip_round t = ht'))"
  using assms(3,4)
proof (induction ts arbitrary: ns hq ht seen_tips)
  case (Cons t ts)
  let ?hq = "max hq (ht_high_qc_round t)" and ?ht = "max ht (ht_high_tip_round t)"
  have max: "(if a < b then b else a) = max a b" for a b :: nat
    by simp
  obtain signers seen where s: "\<not> r \<le> ht_high_qc_round t"
      "check_signatures (ve_crypto V) vm (TimeoutMsg (tuple_info e r t)) (ht_sigs t) = Inr signers"
      "add_signers signers (set ns) = Inr seen"
      "tip_rounds_loop (ve_crypto V) vm e r ts (ns @ signers) ?hq ?ht
         (insert (ht_high_qc_round t, ht_high_tip_round t) seen_tips) seen = Inr (ns', hq', ht')"
    using Cons.prems(1)
    by (auto simp: Let_def try_then_eq_Inr max simp flip: tuple_info_def split: if_split_asm)
  have seen: "seen = set (ns @ signers)" "distinct (ns @ signers)"
    using add_signers_ok [OF s(3)] Cons.prems(2) by auto
  note ih = Cons.IH [OF s(4) [unfolded seen(1)] seen(2)]
  note sigs = check_signatures_sound [OF V vm s(2)]
  have "\<forall>n \<in> set ns'. n \<in> set ns \<or>
      (\<exists>t \<in> set (t # ts). \<exists>sig. signer_valid (ve_valid V) vm (TimeoutMsg (tuple_info e r t)) n sig)"
    using ih sigs by fastforce
  moreover have "\<forall>t \<in> set (t # ts). ht_high_qc_round t < r \<and> ht_high_qc_round t \<le> hq' \<and> ht_high_tip_round t \<le> ht'"
    using ih s(1) by auto
  moreover have "hq \<le> hq' \<and> (hq' = hq \<or> (\<exists>t \<in> set (t # ts). ht_high_qc_round t = hq'))"
    using ih by (auto simp: max_def split: if_splits)
  moreover have "ht \<le> ht' \<and> (ht' = ht \<or> (\<exists>t \<in> set (t # ts). ht_high_tip_round t = ht'))"
    using ih by (auto simp: max_def split: if_splits)
  ultimately show ?case
    using ih by blast
qed simp

lemma check_highest_checks:
  assumes "\<forall>t \<in> set ts. ht_high_qc_round t \<le> hq \<and> ht_high_tip_round t \<le> ht"
    and "hq = GENESIS_ROUND \<or> (\<exists>t \<in> set ts. ht_high_qc_round t = hq)"
    and "ht = GENESIS_ROUND \<or> (\<exists>t \<in> set ts. ht_high_tip_round t = ht)"
  shows "checks I (check_highest he hq ht) (\<lambda>_. highest_reported ts he)"
proof (cases he)
  case (HE_Qc qc)
  then show ?thesis
    using assms(1,2) by (auto intro!: checks_that simp: highest_reported_def)
next
  case (HE_Tip tip)
  then show ?thesis
    using assms(1,3)
    by (auto intro!: checks_that simp: highest_reported_def GENESIS_ROUND_def dest: le_less_trans)
qed

lemma verify_tc_checks_if:
  assumes V: "validation_env_ok V" and K: "cache_ops_ok K"
    and he: "checks (cache_sound K V) (verify_high_extend K (ve_crypto V) (ve_e2v V) (tc_high_extend tc))
      (\<lambda>_. high_extend_certified V (tc_high_extend tc))"
  shows "checks (cache_sound K V) (verify_tc K (ve_crypto V) (ve_e2v V) tc) (\<lambda>_. tc_certified V tc)"
  unfolding verify_tc.simps
proof (rule checks_cached, goal_cases)
  case (1 cache)
  then show ?case
    by (simp add: cache_sound_def)
next
  case 2
  let ?loop = "\<lambda>vm. tip_rounds_loop (ve_crypto V) vm (tc_epoch tc) (tc_round tc) (tc_tip_rounds tc) []
    GENESIS_ROUND GENESIS_ROUND {} {}"
  show ?case
  proof (rule checks_e2v [OF V], unfold prod.case, rule checks_bind)
    fix vs vm
    show "checks (cache_sound K V) (check_lift (Some (?loop vm))) (\<lambda>x. ?loop vm = Inr x)"
      by (rule checks_lift) auto
  next
    fix vs vm x
    assume v: "validators_of (ve_em V) (ve_vem V) (tc_epoch tc) (tc_round tc) vs vm" and wf: "vs_wf vs" "bt_wf vm"
      and l: "?loop vm = Inr x"
    obtain ns hq ht where x: "x = (ns, hq, ht)"
      by (cases x)
    note loop = tip_rounds_loop_ok [OF V wf(2), of "tc_epoch tc" "tc_round tc" "tc_tip_rounds tc" "[]",
      simplified, OF l [unfolded x]]
    obtain tuple where tuple: "\<And>n. n \<in> set ns \<Longrightarrow> tuple n \<in> set (tc_tip_rounds tc) \<and>
        (\<exists>sig. signer_valid (ve_valid V) vm (TimeoutMsg (tuple_info (tc_epoch tc) (tc_round tc) (tuple n))) n sig)"
      using loop by metis
    have certified: "timeouts_certified V tc"
      if "is_quorum vs ns" and "highest_reported (tc_tip_rounds tc) (tc_high_extend tc)"
      unfolding timeouts_certified_def
      using v that loop tuple
      by (intro exI [of _ vs] exI [of _ vm] exI [of _ "map (\<lambda>n. (n, tuple n)) ns"]) (auto simp: comp_def)
    have high: "checks (cache_sound K V) (check_highest (tc_high_extend tc) hq ht)
        (\<lambda>_. highest_reported (tc_tip_rounds tc) (tc_high_extend tc))"
      using loop by (intro check_highest_checks) auto
    have update: "checks (cache_sound K V) (check_update (cache_validated_tc K tc)) (\<lambda>_. tc_certified V tc)"
      if "tc_certified V tc"
      using cache_sound_update(2) [OF K _ that] that by (intro checks_update)
    show "checks (cache_sound K V)
       (case x of (node_ids, highest_qc_round, highest_tip_round) \<Rightarrow>
          check_then (check_super_majority vs node_ids)
          (check_then (verify_high_extend K (ve_crypto V) (ve_e2v V) (tc_high_extend tc))
          (check_then (check_highest (tc_high_extend tc) highest_qc_round highest_tip_round)
            (check_update (cache_validated_tc K tc)))))
       (\<lambda>_. tc_certified V tc)"
      unfolding x prod.case using loop certified
      by (intro checks_then [OF check_super_majority_checks [OF wf(1)]] checks_then [OF he] checks_then [OF high] update)
        (auto simp: tc_certified_def)
  qed
qed

lemma checks_round_add:
  "r < u64_max \<Longrightarrow> checks I (check_lift (map_option Inr (round_add r 1))) (\<lambda>x. x = r + 1)"
  by (rule checks_lift) (auto simp: round_add_def checked_add_u64_def)

lemma validation_env_rounds:
  assumes "validation_env_ok V"
  shows "qc_certified V qc \<Longrightarrow> qc_round qc < u64_max" and "timeouts_certified V tc \<Longrightarrow> tc_round tc < u64_max"
  using assms unfolding validation_env_ok_def by blast+

lemma check_fresh_checks:
  assumes V: "validation_env_ok V" and qc: "qc_certified V (h_qc (tip_block_header tip))"
    and fresh: "case tip_fresh_certificate tip of
        None \<Rightarrow> True | Some (Nec nec) \<Rightarrow> nec_certified V nec | Some (NoTip nt) \<Rightarrow> tc_certified V (no_tip_tc nt)"
  shows "checks I (check_fresh tip) (\<lambda>_. fresh_certified V tip)"
  unfolding check_fresh_def
proof (rule checks_bind [OF checks_round_add [OF validation_env_rounds(1) [OF V qc]]], hypsubst)
  let ?next = "qc_round (h_qc (tip_block_header tip)) + 1"
  show "checks I
     (if tip_round tip = ?next then check_that (tip_fresh_certificate tip = None) NotWellFormed
      else
        (case tip_fresh_certificate tip of
           None \<Rightarrow> check_that False NotWellFormed
         | Some (Nec nec) \<Rightarrow>
             check_that (ne_round (nec_msg nec) = tip_round tip \<and>
                         ne_tip_qc_round (nec_msg nec) = qc_round (h_qc (tip_block_header tip))) NotWellFormed
         | Some (NoTip no_tip) \<Rightarrow>
             check_bind (check_lift (map_option Inr (round_add (nt_round no_tip) 1))) (\<lambda>no_tip_next.
             check_that (no_tip_next = tip_round tip \<and>
                         qc_round (nt_high_qc no_tip) = qc_round (h_qc (tip_block_header tip))) NotWellFormed)))
     (\<lambda>_. fresh_certified V tip)"
  proof (cases "tip_round tip = ?next")
    case True
    then show ?thesis
      by (auto intro!: checks_that simp: fresh_certified_def)
  next
    case False
    consider "tip_fresh_certificate tip = None" | nec where "tip_fresh_certificate tip = Some (Nec nec)"
      | nt where "tip_fresh_certificate tip = Some (NoTip nt)"
      by (metis fresh_proposal_certificate.exhaust option.exhaust)
    then show ?thesis
    proof cases
      case (3 nt)
      then have tc: "timeouts_certified V (no_tip_tc nt)" "qc_certified V (nt_high_qc nt)"
        using fresh by (simp_all add: tc_certified_def) (simp add: no_tip_tc_def)
      then have "nt_round nt < u64_max"
        using validation_env_rounds(2) [OF V tc(1)] by (simp add: no_tip_tc_def)
      then show ?thesis
        using False tc 3
        by (auto intro!: checks_bind [OF checks_round_add] checks_that simp: fresh_certified_def
            simp del: One_nat_def)
    qed (use False fresh in \<open>auto intro!: checks_that simp: fresh_certified_def\<close>)
  qed
qed

lemma verify_tip_checks:
  assumes V: "validation_env_ok V" and K: "cache_ops_ok K"
  shows "checks (cache_sound K V) (verify_tip K (ve_crypto V) (ve_e2v V) tip) (\<lambda>_. tip_certified V tip)"
  unfolding verify_tip.simps
proof (rule checks_e2v [OF V], unfold prod.case)
  fix vs vm leader
  assume v: "validators_of (ve_em V) (ve_vem V) (h_epoch (tip_block_header tip)) (tip_round tip) vs vm"
    and leader: "ve_election V (tip_round tip) (validators vs) = Some leader"
  let ?qc = "h_qc (tip_block_header tip)"
  let ?fresh = "case tip_fresh_certificate tip of
        None \<Rightarrow> True | Some (Nec nec) \<Rightarrow> nec_certified V nec | Some (NoTip nt) \<Rightarrow> tc_certified V (no_tip_tc nt)"
  have author: "checks (cache_sound K V) (check_tip_author (ve_crypto V) tip leader)
      (\<lambda>_. signature_author (ve_crypto V) tip = Some leader \<and> h_author (tip_block_header tip) = leader)"
    unfolding check_tip_author_def by (auto intro!: checks_that split: option.splits)
  have no_tip: "checks (cache_sound K V) (verify_tc K (ve_crypto V) (ve_e2v V) (no_tip_tc nt))
      (\<lambda>_. tc_certified V (no_tip_tc nt))" for nt
    by (rule verify_tc_checks_if [OF V K]) (simp add: no_tip_tc_def verify_qc_checks [OF V K])
  have fresh: "checks (cache_sound K V)
      (case tip_fresh_certificate tip of
         Some (Nec nec) \<Rightarrow> verify_nec K (ve_crypto V) (ve_e2v V) nec
       | Some (NoTip no_tip) \<Rightarrow> verify_tc K (ve_crypto V) (ve_e2v V) (no_tip_tc no_tip)
       | None \<Rightarrow> check_ok ()) (\<lambda>_. ?fresh)"
    using no_tip verify_nec_checks [OF V K]
    by (auto intro!: checks_ok split: option.splits fresh_proposal_certificate.splits)
  show "checks (cache_sound K V)
     (check_then (check_tip_author (ve_crypto V) tip leader)
     (check_then (verify_qc K (ve_crypto V) (ve_e2v V) ?qc)
     (check_then
        (case tip_fresh_certificate tip of
           Some (Nec nec) \<Rightarrow> verify_nec K (ve_crypto V) (ve_e2v V) nec
         | Some (NoTip no_tip) \<Rightarrow> verify_tc K (ve_crypto V) (ve_e2v V) (no_tip_tc no_tip)
         | None \<Rightarrow> check_ok ())
        (check_fresh tip))))
     (\<lambda>_. tip_certified V tip)"
  proof (intro checks_then [OF author] checks_then [OF verify_qc_checks [OF V K]] checks_then [OF fresh])
    assume "signature_author (ve_crypto V) tip = Some leader \<and> h_author (tip_block_header tip) = leader"
      and "qc_certified V ?qc" and "?fresh"
    then show "checks (cache_sound K V) (check_fresh tip) (\<lambda>_. tip_certified V tip)"
      using v leader
      by (intro checks_conseq [OF check_fresh_checks [OF V]]) (auto simp: tip_certified_def)
  qed
qed

lemma verify_high_extend_checks:
  assumes "validation_env_ok V" and "cache_ops_ok K"
  shows "checks (cache_sound K V) (verify_high_extend K (ve_crypto V) (ve_e2v V) he)
    (\<lambda>_. high_extend_certified V he)"
  by (cases he) (simp_all add: verify_qc_checks [OF assms] verify_tip_checks [OF assms])

lemma verify_tc_checks:
  assumes "validation_env_ok V" and "cache_ops_ok K"
  shows "checks (cache_sound K V) (verify_tc K (ve_crypto V) (ve_e2v V) tc) (\<lambda>_. tc_certified V tc)"
  by (rule verify_tc_checks_if [OF assms verify_high_extend_checks [OF assms]])

section \<open>Accepted messages\<close>

fun round_certificate_certified :: "('s, 'e) validation_env \<Rightarrow> ('s, 'e) round_certificate \<Rightarrow> bool" where
  "round_certificate_certified V (RC_Qc qc) \<longleftrightarrow> qc_certified V qc"
| "round_certificate_certified V (RC_Tc tc) \<longleftrightarrow> tc_certified V tc"

text \<open>
  A proposal extends the QC of the round before or, with a timeout certificate of the round before,
  the QC of that certificate's extension, either by the extended tip itself or by a fresh block.
\<close>

definition proposal_certified :: "('s, 'e) validation_env \<Rightarrow> ('s, 'e) proposal_message \<Rightarrow> bool" where
  "proposal_certified V p \<longleftrightarrow>
     tip_certified V (p_tip p) \<and>
     h_block_body_id (tip_block_header (p_tip p)) = body_id (ve_crypto V) (p_block_body p) \<and>
     get_epoch (ve_em V) (p_proposal_round p) = Some (p_proposal_epoch p) \<and>
     (case p_last_round_tc p of
        None \<Rightarrow> p_proposal_round p = qc_round (h_qc (tip_block_header (p_tip p))) + 1
      | Some tc \<Rightarrow>
          tc_certified V tc \<and> p_proposal_round p = tc_round tc + 1 \<and>
          qc_round (high_extend_qc (tc_high_extend tc)) = qc_round (h_qc (tip_block_header (p_tip p))) \<and>
          (\<forall>tip. tc_high_extend tc = HE_Tip tip \<longrightarrow>
             tip = p_tip p \<or> p_proposal_round p = tip_round (p_tip p)))"

definition timeout_certified :: "('s, 'e) validation_env \<Rightarrow> ('s, 'e) timeout \<Rightarrow> bool" where
  "timeout_certified V t \<longleftrightarrow>
     high_extend_certified V (high_extend_from_vote (tm_high_extend t)) \<and>
     get_epoch (ve_em V) (ti_round (tm_tminfo t)) = Some (ti_epoch (tm_tminfo t)) \<and>
     (case tm_last_round_certificate t of
        None \<Rightarrow> ti_round (tm_tminfo t) = qc_round (high_extend_vote_qc (tm_high_extend t)) + 1
      | Some rc \<Rightarrow> round_certificate_certified V rc \<and> ti_round (tm_tminfo t) = round_certificate_round rc + 1) \<and>
     (case tm_high_extend t of
        HEV_Qc qc \<Rightarrow> ti_high_tip_round (tm_tminfo t) = GENESIS_ROUND \<and> ti_high_qc_round (tm_tminfo t) = qc_round qc
      | HEV_Tip tip _ \<Rightarrow>
          ti_high_tip_round (tm_tminfo t) = tip_round tip \<and> ti_high_qc_round (tm_tminfo t) < tip_round tip)"

fun message_certified :: "('s, 'e) validation_env \<Rightarrow> ('s, 'e) protocol_message \<Rightarrow> bool" where
  "message_certified V (Proposal_Msg p) \<longleftrightarrow> proposal_certified V p"
| "message_certified V (Vote_Msg v) \<longleftrightarrow>
     get_epoch (ve_em V) (v_round (vmsg_vote v)) = Some (v_epoch (vmsg_vote v))"
| "message_certified V (Timeout_Msg t) \<longleftrightarrow> timeout_certified V t"
| "message_certified V (RoundRecovery_Msg m) \<longleftrightarrow>
     tc_certified V (rr_tc m) \<and> rr_round m = tc_round (rr_tc m) + 1 \<and>
     (\<exists>tip. tc_high_extend (rr_tc m) = HE_Tip tip) \<and> get_epoch (ve_em V) (rr_round m) = Some (rr_epoch m)"
| "message_certified V (NoEndorsement_Msg m) \<longleftrightarrow>
     get_epoch (ve_em V) (ne_round (nemsg_msg m)) = Some (ne_epoch (nemsg_msg m))"
| "message_certified V (AdvanceRound_Msg m) \<longleftrightarrow> round_certificate_certified V (ar_last_round_certificate m)"

lemma verify_round_certificate_checks:
  assumes "validation_env_ok V" and "cache_ops_ok K"
  shows "checks (cache_sound K V) (verify_round_certificate K (ve_crypto V) (ve_e2v V) rc)
    (\<lambda>_. round_certificate_certified V rc)"
  by (cases rc) (simp_all add: verify_round_certificate_def verify_qc_checks [OF assms] verify_tc_checks [OF assms])

lemma round_certificate_round_bound:
  assumes "validation_env_ok V" and "round_certificate_certified V rc"
  shows "round_certificate_round rc < u64_max"
  using assms(2) validation_env_rounds [OF assms(1)] by (cases rc) (auto simp: tc_certified_def)

lemma high_extend_qc_bound:
  assumes "validation_env_ok V" and "high_extend_certified V he"
  shows "qc_round (high_extend_qc he) < u64_max"
  using assms(2) validation_env_rounds(1) [OF assms(1)] by (cases he) (auto simp: tip_certified_def)

lemma check_next_round_checks:
  "prev < u64_max \<Longrightarrow> checks I (check_next_round r prev err) (\<lambda>_. r = prev + 1)"
  unfolding check_next_round_def
  by (rule checks_bind [OF checks_round_add]) (auto intro: checks_that)

lemma verify_epoch_checks: "checks I (verify_epoch em r e) (\<lambda>_. get_epoch em r = Some e)"
  unfolding verify_epoch_def by (rule checks_that)

text \<open>An optional certificate of the previous round is verified and compared with the round.\<close>

lemma last_certificate_checks:
  assumes "\<And>c. lc = Some c \<Longrightarrow> checks I (verify c) (\<lambda>_. certified c)"
    and "\<And>c. lc = Some c \<Longrightarrow> certified c \<Longrightarrow> round_of c < u64_max"
  shows "checks I
    (case lc of None \<Rightarrow> check_ok () | Some c \<Rightarrow> check_then (verify c) (check_next_round r (round_of c) err))
    (\<lambda>_. \<forall>c. lc = Some c \<longrightarrow> certified c \<and> r = round_of c + 1)"
proof (cases lc)
  case (Some c)
  then show ?thesis
    using assms
    by (auto intro!: checks_then [where Q = "certified c"] intro: checks_conseq [OF check_next_round_checks])
qed (auto intro: checks_ok)

lemma well_formed_proposal_checks:
  assumes "qc_round (h_qc (tip_block_header (p_tip p))) < u64_max"
  shows "checks I (well_formed_proposal C p) (\<lambda>_.
    h_block_body_id (tip_block_header (p_tip p)) = body_id C (p_block_body p) \<and>
    (case p_last_round_tc p of
       None \<Rightarrow> p_proposal_round p = qc_round (h_qc (tip_block_header (p_tip p))) + 1
     | Some tc \<Rightarrow>
         qc_round (high_extend_qc (tc_high_extend tc)) = qc_round (h_qc (tip_block_header (p_tip p))) \<and>
         (\<forall>tip. tc_high_extend tc = HE_Tip tip \<longrightarrow> tip = p_tip p \<or> p_proposal_round p = tip_round (p_tip p))))"
  unfolding well_formed_proposal_def Let_def
  by (intro checks_then checks_that checks_bind [OF checks_round_add [OF assms]])
    (auto intro!: checks_that checks_ok split: option.splits high_extend.splits)

lemma proposal_validate_checks:
  assumes V: "validation_env_ok V" and K: "cache_ops_ok K"
  shows "checks (cache_sound K V) (proposal_validate K (ve_crypto V) (ve_em V) (ve_vem V) (ve_election V) p)
    (\<lambda>_. proposal_certified V p)"
proof -
  let ?Q = "\<forall>tc. p_last_round_tc p = Some tc \<longrightarrow> tc_certified V tc \<and> p_proposal_round p = tc_round tc + 1"
  have last: "checks (cache_sound K V)
      (case p_last_round_tc p of
         None \<Rightarrow> check_ok ()
       | Some tc \<Rightarrow> check_then (verify_tc K (ve_crypto V) (ve_e2v V) tc)
           (check_next_round (p_proposal_round p) (tc_round tc) NotWellFormed)) (\<lambda>_. ?Q)"
    by (rule last_certificate_checks) (auto simp: tc_certified_def verify_tc_checks [OF V K, unfolded tc_certified_def]
      intro: validation_env_rounds(2) [OF V])
  have wf: "checks (cache_sound K V)
      (check_then (well_formed_proposal (ve_crypto V) p)
        (verify_epoch (ve_em V) (p_proposal_round p) (p_proposal_epoch p))) (\<lambda>_. proposal_certified V p)"
    if "tip_certified V (p_tip p)" and ?Q
    using that validation_env_rounds(1) [OF V]
    by (intro checks_then [OF well_formed_proposal_checks] checks_conseq [OF verify_epoch_checks])
      (auto simp: tip_certified_def proposal_certified_def split: option.splits)
  show ?thesis
    unfolding proposal_validate_def Let_def
    by (intro checks_then [OF last] checks_then [OF verify_tip_checks [OF V K]] wf)
qed

lemma well_formed_timeout_checks:
  assumes "qc_round (high_extend_vote_qc (tm_high_extend t)) < u64_max"
  shows "checks I (well_formed_timeout t) (\<lambda>_. tm_last_round_certificate t = None \<longrightarrow>
    ti_round (tm_tminfo t) = qc_round (high_extend_vote_qc (tm_high_extend t)) + 1)"
  unfolding well_formed_timeout_def
  by (rule checks_bind [OF checks_round_add [OF assms]]) (auto intro: checks_that)

lemma check_timeout_rounds_checks:
  "checks I (check_timeout_rounds ti he) (\<lambda>_. case he of
      HEV_Qc qc \<Rightarrow> ti_high_tip_round ti = GENESIS_ROUND \<and> ti_high_qc_round ti = qc_round qc
    | HEV_Tip tip _ \<Rightarrow> ti_high_tip_round ti = tip_round tip \<and> ti_high_qc_round ti < tip_round tip)"
  by (cases he) (auto intro: checks_that)

lemma timeout_validate_checks:
  assumes V: "validation_env_ok V" and K: "cache_ops_ok K"
  shows "checks (cache_sound K V)
    (timeout_validate K (ve_crypto V) sig_ok (ve_em V) (ve_vem V) (ve_election V) t) (\<lambda>_. timeout_certified V t)"
proof -
  let ?Q = "\<forall>rc. tm_last_round_certificate t = Some rc \<longrightarrow> round_certificate_certified V rc \<and>
    ti_round (tm_tminfo t) = round_certificate_round rc + 1"
  have last: "checks (cache_sound K V)
      (case tm_last_round_certificate t of
         None \<Rightarrow> check_ok ()
       | Some rc \<Rightarrow> check_then (verify_round_certificate K (ve_crypto V) (ve_e2v V) rc)
           (check_next_round (ti_round (tm_tminfo t)) (round_certificate_round rc) NotWellFormed)) (\<lambda>_. ?Q)"
    by (rule last_certificate_checks)
      (auto intro: verify_round_certificate_checks [OF V K] round_certificate_round_bound [OF V])
  have wf: "checks (cache_sound K V)
      (check_then (check_timeout_rounds (tm_tminfo t) (tm_high_extend t))
      (check_then (well_formed_timeout t)
        (verify_epoch (ve_em V) (ti_round (tm_tminfo t)) (ti_epoch (tm_tminfo t))))) (\<lambda>_. timeout_certified V t)"
    if "high_extend_certified V (high_extend_from_vote (tm_high_extend t))" and ?Q
    using that high_extend_qc_bound [OF V that(1)]
    by (intro checks_then [OF check_timeout_rounds_checks] checks_then [OF well_formed_timeout_checks]
          checks_conseq [OF verify_epoch_checks])
      (auto simp: timeout_certified_def split: option.splits)
  show ?thesis
    unfolding timeout_validate_def Let_def
    by (intro checks_then [where Q = True] checks_that checks_then [OF last]
        checks_then [OF verify_high_extend_checks [OF V K]] wf TrueI)
qed

lemma round_recovery_validate_checks:
  assumes V: "validation_env_ok V" and K: "cache_ops_ok K"
  shows "checks (cache_sound K V)
    (round_recovery_validate K (ve_crypto V) (ve_em V) (ve_vem V) (ve_election V) m)
    (\<lambda>_. message_certified V (RoundRecovery_Msg m))"
  unfolding round_recovery_validate_def
proof (rule checks_then [OF verify_tc_checks [OF V K]])
  assume tc: "tc_certified V (rr_tc m)"
  then have "tc_round (rr_tc m) < u64_max"
    using validation_env_rounds(2) [OF V] by (simp add: tc_certified_def)
  then have "checks (cache_sound K V) (well_formed_round_recovery m)
      (\<lambda>_. rr_round m = tc_round (rr_tc m) + 1 \<and> (\<exists>tip. tc_high_extend (rr_tc m) = HE_Tip tip))"
    unfolding well_formed_round_recovery_def
    by (intro checks_then [OF check_next_round_checks]) (auto intro!: checks_that checks_ok split: high_extend.splits)
  then show "checks (cache_sound K V)
      (check_then (well_formed_round_recovery m) (verify_epoch (ve_em V) (rr_round m) (rr_epoch m)))
      (\<lambda>_. message_certified V (RoundRecovery_Msg m))"
    using tc by (elim checks_then) (auto intro: checks_conseq [OF verify_epoch_checks])
qed

lemma message_validate_checks:
  assumes V: "validation_env_ok V" and K: "cache_ops_ok K"
  shows "checks (cache_sound K V)
    (message_validate K (ve_crypto V) sig_ok (ve_em V) (ve_vem V) (ve_election V) client_version m)
    (\<lambda>m'. m' = m \<and> cm_version m = client_version \<and> message_certified V (cm_message m))"
  unfolding message_validate_def
proof (rule checks_then [OF checks_that], assumption, rule checks_then [where Q = "message_certified V (cm_message m)"])
  show "checks (cache_sound K V)
     (case cm_message m of
        Proposal_Msg p \<Rightarrow> proposal_validate K (ve_crypto V) (ve_em V) (ve_vem V) (ve_election V) p
      | Vote_Msg v \<Rightarrow> vote_validate sig_ok (ve_em V) v
      | Timeout_Msg t \<Rightarrow> timeout_validate K (ve_crypto V) sig_ok (ve_em V) (ve_vem V) (ve_election V) t
      | RoundRecovery_Msg r \<Rightarrow> round_recovery_validate K (ve_crypto V) (ve_em V) (ve_vem V) (ve_election V) r
      | NoEndorsement_Msg n \<Rightarrow> no_endorsement_validate (ve_em V) n
      | AdvanceRound_Msg a \<Rightarrow> advance_round_validate K (ve_crypto V) (ve_em V) (ve_vem V) (ve_election V) a)
     (\<lambda>_. message_certified V (cm_message m))"
    using proposal_validate_checks [OF V K] timeout_validate_checks [OF V K] round_recovery_validate_checks [OF V K]
      verify_round_certificate_checks [OF V K]
    by (cases "cm_message m")
      (auto simp: vote_validate_def no_endorsement_validate_def advance_round_validate_def
        intro: checks_then [where Q = True] checks_that verify_epoch_checks)
qed (auto intro: checks_ok)

lemma cache_sound_default:
  "cache_ops_ok K \<Longrightarrow> cache_sound K V (certificate_cache_default K)"
  by (simp add: cache_sound_def certificate_cache_default_def cache_ops_ok_def qc_is_cached_validated_def
      tc_is_cached_validated_def nec_is_cached_validated_def)

text \<open>
  C7. Validation is total and sound. On any received message and any cache of certified
  certificates, \<open>validate\<close> returns without a panic (no overflow can be provoked, since rounds are
  only incremented after their certificate was checked), leaves only certified certificates in the
  cache, also when it rejects the message, and accepts only messages all of whose certificates and
  tips are signed by a super-majority of the round's validators, extend what the protocol allows and
  are of the recorded epoch.
\<close>

theorem message_validate_sound:
  assumes "validation_env_ok V" and "cache_ops_ok K" and "cache_sound K V cache"
  shows "\<exists>r cache'.
    message_validate K (ve_crypto V) sig_ok (ve_em V) (ve_vem V) (ve_election V) client_version m cache =
      Some (r, cache') \<and>
    cache_sound K V cache' \<and>
    (\<forall>m'. r = Inr m' \<longrightarrow> m' = m \<and> cm_version m = client_version \<and> message_certified V (cm_message m))"
  using message_validate_checks [OF assms(1,2), of sig_ok client_version m, unfolded checks_def] assms(3) by blast

section \<open>An instance\<close>

text \<open>
  One validator, node 2, with the key 7, elected by \<open>simple_get_leader\<close>; a signature scheme in which
  its signature 107 is valid for a single vote and for timeouts and no-endorsements of early rounds;
  and a cache without eviction, keyed by the certificates themselves.
\<close>

datatype demo_key =
    DK_Qc "multi_sig quorum_certificate"
  | DK_Tc "(multi_sig, unit) timeout_certificate"
  | DK_Nec "multi_sig no_endorsement_certificate"

definition demo_cache_ops :: "(multi_sig, unit, demo_key, demo_key list) cache_ops" where
  "demo_cache_ops =
     \<lparr>rlp_qc = DK_Qc, rlp_tc = DK_Tc, rlp_nec = DK_Nec, lru_new = (\<lambda>_. []),
      lru_put = (\<lambda>l k. k # l), lru_contains = (\<lambda>l k. k \<in> set l)\<rparr>"

definition strict_vote :: vote where
  "strict_vote = \<lparr>v_id = 1005, v_round = 5, v_epoch = 3\<rparr>"

fun strict_msg :: "sc_msg \<Rightarrow> bool" where
  "strict_msg (VoteMsg v) \<longleftrightarrow> v = strict_vote"
| "strict_msg EmptyVoteMsg \<longleftrightarrow> True"
| "strict_msg (TimeoutMsg ti) \<longleftrightarrow> ti_round ti < 50"
| "strict_msg (NoEndorsementMsg ne) \<longleftrightarrow> ne_round ne < 50"
| "strict_msg (RoundMsg r) \<longleftrightarrow> True"

definition strict_sig_ops :: sig_ops where
  "strict_sig_ops =
     \<lparr>so_recover = (\<lambda>sig msg. Some (sig - 100)), so_verify = (\<lambda>sig msg pk. sig = pk + 100 \<and> strict_msg msg)\<rparr>"

definition strict_env :: "(multi_sig, unit) validation_env" where
  "strict_env =
     \<lparr>ve_crypto = with_multi_sig strict_sig_ops demo_crypto, ve_valid = sig_valid strict_sig_ops,
      ve_em = demo_em, ve_vem = [(3, solo_vs, [(2, 7)])], ve_election = simple_get_leader\<rparr>"

definition strict_qc :: "multi_sig quorum_certificate" where
  "strict_qc = \<lparr>qc_info = strict_vote, qc_signatures = \<lparr>sigs = [107]\<rparr>\<rparr>"

lemma demo_cache_ops_ok: "cache_ops_ok demo_cache_ops"
  by (simp add: cache_ops_ok_def demo_cache_ops_def inj_def)

lemma strict_sig_valid [simp]: "sig_valid strict_sig_ops sig msg pk \<longleftrightarrow> sig = pk + 100 \<and> strict_msg msg"
  by (auto simp: sig_valid_def strict_sig_ops_def)

lemma strict_env_simps [simp]:
  "ve_valid strict_env = sig_valid strict_sig_ops"
  "ve_vem strict_env = [(3, solo_vs, [(2, 7)])]" "ve_em strict_env = demo_em"
  "ve_crypto strict_env = with_multi_sig strict_sig_ops demo_crypto"
  "ve_election strict_env = simple_get_leader"
  by (simp_all add: strict_env_def)

lemma solo_quorum_nonempty: "\<not> is_quorum solo_vs []"
  by (simp add: is_quorum_def has_super_majority_votes_def has_threshold_votes_def solo_vs_def
      calculate_current_stake_def stake_sum_def)

lemma strict_quorum_signed:
  assumes "quorum_signed (sig_valid strict_sig_ops) solo_vs vm msg"
  shows "strict_msg msg"
proof -
  obtain ns where q: "is_quorum solo_vs ns" "\<forall>n \<in> set ns. \<exists>sig. signer_valid (sig_valid strict_sig_ops) vm msg n sig"
    using assms unfolding quorum_signed_def by blast
  then have "ns \<noteq> []"
    using solo_quorum_nonempty by auto
  then obtain n where "n \<in> set ns"
    by (cases ns) auto
  then show ?thesis
    using q(2) by (auto simp: signer_valid_def)
qed

lemma strict_env_ok: "validation_env_ok strict_env"
proof -
  have qc: "qc_round qc < u64_max" if "qc_certified strict_env qc" for qc
    using that
    by (auto simp: qc_certified_def validators_of_def GENESIS_ROUND_def strict_vote_def dest!: strict_quorum_signed
        split: if_splits)
  have tc: "tc_round tc < u64_max" if certified: "timeouts_certified strict_env tc" for tc
  proof -
    obtain vs vm signers where v: "map_of (ve_vem strict_env) (tc_epoch tc) = Some (vs, vm)"
      and q: "is_quorum vs (map fst signers)"
        "\<forall>(n, t) \<in> set signers. t \<in> set (tc_tip_rounds tc) \<and> (\<exists>sig. signer_valid (ve_valid strict_env) vm
           (TimeoutMsg (tuple_info (tc_epoch tc) (tc_round tc) t)) n sig)"
      using certified unfolding timeouts_certified_def validators_of_def by blast
    have "vs = solo_vs"
      using v by (auto split: if_splits)
    then have "signers \<noteq> []"
      using q(1) solo_quorum_nonempty by auto
    then obtain n t where "(n, t) \<in> set signers"
      by (cases signers) auto
    then show ?thesis
      using q(2) by (auto simp: signer_valid_def tuple_info_def)
  qed
  have leader: "simple_get_leader r (validators solo_vs) \<noteq> None" for r
    by (simp add: simple_get_leader_def solo_vs_def)
  have "signature_collection (ve_crypto strict_env) (ve_valid strict_env)"
    unfolding strict_env_simps by (rule ms.signature_collection_axioms)
  then show ?thesis
    unfolding validation_env_ok_def using qc tc leader solo_vs_wf by (auto simp: bt_wf_def)
qed

lemma strict_verify_qc:
  "verify_qc demo_cache_ops (ve_crypto strict_env) (ve_e2v strict_env) strict_qc (certificate_cache_default demo_cache_ops) =
   Some (Inr (), cache_validated_qc demo_cache_ops strict_qc (certificate_cache_default demo_cache_ops))"
proof -
  have v: "sc_verify (ve_crypto strict_env) \<lparr>sigs = [107]\<rparr> [(2, 7)] (VoteMsg strict_vote) = Inr [2]"
    by (simp add: multi_sig_verify_def strict_sig_ops_def multi_sig_match_loop.simps)
  have e: "ve_e2v strict_env 3 5 = Some (Inr (solo_vs, [(2, 7)], 2))"
    by (simp add: epoch_to_validators_def get_epoch_def demo_em_def get_val_set_def get_cert_pubkeys_def
        simple_get_leader_def) (simp add: solo_vs_def)
  have q: "check_super_majority solo_vs [2] cache = Some (Inr (), cache)" for cache :: "demo_key list certificate_cache"
    using solo_quorum by (simp add: check_super_majority_def is_quorum_def check_lift_def)
  have c: "\<not> qc_is_cached_validated demo_cache_ops (certificate_cache_default demo_cache_ops) strict_qc"
    by (simp add: qc_is_cached_validated_def certificate_cache_default_def demo_cache_ops_def)
  have s: "check_signatures (ve_crypto strict_env) [(2, 7)] (VoteMsg strict_vote) \<lparr>sigs = [107]\<rparr> = Inr [2]"
    by (simp only: check_signatures_def v sum.case)
  show ?thesis
    unfolding verify_qc_def
    using c e q s
    by (simp add: strict_qc_def strict_vote_def check_bind_def check_lift_def check_then_def check_ok_def
        check_update_def GENESIS_ROUND_def)
qed

definition strict_message :: "(multi_sig, unit) consensus_message" where
  "strict_message = \<lparr>cm_version = 1, cm_message = AdvanceRound_Msg \<lparr>ar_last_round_certificate = RC_Qc strict_qc\<rparr>\<rparr>"

theorem message_validate_sound_witness:
  "\<exists>cache'. message_validate demo_cache_ops (ve_crypto strict_env) (\<lambda>_. True) (ve_em strict_env) (ve_vem strict_env)
     (ve_election strict_env) 1 strict_message (certificate_cache_default demo_cache_ops) =
       Some (Inr strict_message, cache') \<and>
     cache_sound demo_cache_ops strict_env cache' \<and> qc_certified strict_env strict_qc"
proof -
  let ?run = "message_validate demo_cache_ops (ve_crypto strict_env) (\<lambda>_. True) (ve_em strict_env) (ve_vem strict_env)
     (ve_election strict_env) 1 strict_message (certificate_cache_default demo_cache_ops)"
  have "\<exists>cache'. ?run = Some (Inr strict_message, cache')"
    using strict_verify_qc
    by (simp add: message_validate_def strict_message_def advance_round_validate_def verify_round_certificate_def
        check_then_def check_bind_def check_that_def check_ok_def)
  moreover obtain r cache' where "?run = Some (r, cache') \<and> cache_sound demo_cache_ops strict_env cache' \<and>
      (\<forall>m'. r = Inr m' \<longrightarrow> m' = strict_message \<and> cm_version strict_message = 1 \<and>
        message_certified strict_env (cm_message strict_message))"
    using message_validate_sound [OF strict_env_ok demo_cache_ops_ok cache_sound_default [OF demo_cache_ops_ok],
        of "\<lambda>_. True" 1 strict_message] by blast
  ultimately show ?thesis
    by (auto simp: strict_message_def)
qed

end
