(* ===== verification/Acceptance.thy ===== *)
theory Acceptance
  imports Validation Pacemaker
begin

text \<open>
  Certificates across components: those that \<open>VoteState\<close> and \<open>TimeoutCertificate::new\<close> build pass
  the validation of other nodes, and the quorum certificates that validation accepts agree on the
  block of a round.
\<close>

section \<open>Certificates of votes\<close>

text \<open>A check that succeeds, whatever it leaves in the cache.\<close>

definition accepts :: "('l, unit) checks \<Rightarrow> bool" where
  "accepts m \<longleftrightarrow> (\<forall>cache. \<exists>cache'. m cache = Some (Inr (), cache'))"

lemma accepts_then: "accepts m \<Longrightarrow> accepts m' \<Longrightarrow> accepts (check_then m m')"
  unfolding accepts_def
proof
  fix cache
  assume m: "\<forall>cache. \<exists>cache'. m cache = Some (Inr (), cache')"
    and m': "\<forall>cache. \<exists>cache'. m' cache = Some (Inr (), cache')"
  obtain cache' where c: "m cache = Some (Inr (), cache')"
    using m by blast
  show "\<exists>cache'. check_then m m' cache = Some (Inr (), cache')"
    using m' by (simp add: check_then_def check_bind_def c)
qed

lemma accepts_lift_bind: "accepts (f x) \<Longrightarrow> accepts (check_bind (check_lift (Some (Inr x))) f)"
  by (simp add: accepts_def check_bind_def check_lift_def)

lemma accepts_that: "b \<Longrightarrow> accepts (check_that b e)"
  by (simp add: accepts_def check_that_def)

lemma accepts_ok: "accepts (check_ok ())"
  by (simp add: accepts_def check_ok_def)

lemma accepts_update: "accepts (check_update f)"
  by (simp add: accepts_def check_update_def)

lemma accepts_cached: "accepts m \<Longrightarrow> accepts (\<lambda>cache. if b cache then Some (Inr (), cache) else m cache)"
  by (simp add: accepts_def)

lemma accepts_super_majority: "is_quorum vs ns \<Longrightarrow> accepts (check_super_majority vs ns)"
  by (simp add: accepts_def check_super_majority_def is_quorum_def check_lift_def)

lemma e2v_of_validators:
  assumes "validation_env_ok V" and "validators_of (ve_em V) (ve_vem V) e r vs vm"
  shows "vs_wf vs" and "\<exists>leader. ve_e2v V e r = Some (Inr (vs, vm, leader))"
proof -
  have m: "(e, vs, vm) \<in> set (ve_vem V)"
    using assms(2) by (simp add: validators_of_def map_of_SomeD)
  then show "vs_wf vs"
    using assms(1) unfolding validation_env_ok_def by fast
  have "ve_election V r (validators vs) \<noteq> None"
    using assms(1) m unfolding validation_env_ok_def by fast
  then obtain leader where "ve_election V r (validators vs) = Some leader"
    by blast
  then show "\<exists>leader. ve_e2v V e r = Some (Inr (vs, vm, leader))"
    using assms(2) by (simp add: epoch_to_validators_def validators_of_def get_val_set_def get_cert_pubkeys_def)
qed

lemma new_signatures_verify:
  assumes V: "validation_env_ok V" and vm: "vm_wf vm" and "sc_new (ve_crypto V) ss vm msg = Inr s"
  shows "\<exists>ns. check_signatures (ve_crypto V) vm msg s = Inr ns \<and> set ns = fst ` set ss \<and> distinct ns"
proof -
  have sc: "signature_collection (ve_crypto V) (ve_valid V)"
    using V by (simp add: validation_env_ok_def)
  obtain ns where ns: "sc_verify (ve_crypto V) s vm msg = Inr ns" "set ns = fst ` set ss"
    using signature_collection.verify_new [OF sc vm assms(3)] by blast
  then have "distinct ns"
    using signature_collection.verify_sound [OF sc _ ns(1)] vm by (simp add: vm_wf_def)
  then show ?thesis
    using ns by (simp add: check_signatures_def)
qed

lemma process_vote_qc:
  assumes sc: "signature_collection C valid" and wf: "vs_wf vs" "vote_state_wf st"
    and keys: "fst ` set (add_pending_vote st author msg) \<subseteq> fst ` set vm"
    and p: "process_vote C st author msg vs vm = Some (st', Some qc)"
  shows "qc_info qc = vmsg_vote msg \<and>
    (\<exists>ss. is_quorum vs (map fst ss) \<and> sc_new C ss vm (VoteMsg (vmsg_vote msg)) = Inr (qc_signatures qc))"
proof -
  let ?m = "VoteMsg (vmsg_vote msg)" and ?p = "add_pending_vote st author msg"
  obtain ss res where l: "aggregate_loop C vs vm ?m ?p = Some (ss, res)"
    and ok: "aggregate_ok C valid vs vm ?m ?p ss res"
    using signature_collection.aggregate_loop_total [OF sc wf(1) bt_wf_add_pending_vote [OF wf(2)] keys] by blast
  have "\<exists>sigcol. res = Some sigcol \<and> qc = \<lparr>qc_info = vmsg_vote msg, qc_signatures = sigcol\<rparr>"
    using p l by (auto simp: process_vote_def Let_def split: if_splits option.splits Option.bind_splits)
  then show ?thesis
    using ok by (auto simp: aggregate_ok_def)
qed

lemma verify_qc_accepts:
  assumes V: "validation_env_ok V" and vs: "validators_of (ve_em V) (ve_vem V) (qc_epoch qc) (qc_round qc) vs vm"
    and vm: "vm_wf vm" and r: "qc_round qc \<noteq> GENESIS_ROUND" and q: "is_quorum vs (map fst ss)"
    and new: "sc_new (ve_crypto V) ss vm (VoteMsg (qc_info qc)) = Inr (qc_signatures qc)"
  shows "accepts (verify_qc K (ve_crypto V) (ve_e2v V) qc)"
proof -
  obtain ns where ns: "check_signatures (ve_crypto V) vm (VoteMsg (qc_info qc)) (qc_signatures qc) = Inr ns"
    "set ns = fst ` set ss" "distinct ns"
    using new_signatures_verify [OF V vm new] by blast
  have "is_quorum vs ns"
    using e2v_of_validators(1) [OF V vs] q by (rule is_quorum_mono) (use ns in auto)
  moreover obtain leader where "ve_e2v V (qc_epoch qc) (qc_round qc) = Some (Inr (vs, vm, leader))"
    using e2v_of_validators(2) [OF V vs] by blast
  ultimately show ?thesis
    unfolding verify_qc_def using r
    by (auto intro!: accepts_cached accepts_lift_bind accepts_then accepts_super_majority accepts_update
        simp: ns(1))
qed

text \<open>
  C19. A quorum certificate built by \<open>VoteState::process_vote\<close> from the validators and keys of the
  vote's round is accepted by \<open>verify_qc\<close> at every node that knows the same validators, whatever
  its cache holds.
\<close>

theorem created_qc_accepted:
  assumes "validation_env_ok V" and "vote_state_wf st"
    and "validators_of (ve_em V) (ve_vem V) (v_epoch (vmsg_vote msg)) (v_round (vmsg_vote msg)) vs vm"
    and "vm_wf vm" and "fst ` set (add_pending_vote st author msg) \<subseteq> fst ` set vm"
    and "v_round (vmsg_vote msg) \<noteq> GENESIS_ROUND"
    and "process_vote (ve_crypto V) st author msg vs vm = Some (st', Some qc)"
  shows "\<exists>cache'. verify_qc K (ve_crypto V) (ve_e2v V) qc cache = Some (Inr (), cache')"
proof -
  have sc: "signature_collection (ve_crypto V) (ve_valid V)"
    using assms(1) by (simp add: validation_env_ok_def)
  obtain ss where ss: "qc_info qc = vmsg_vote msg" "is_quorum vs (map fst ss)"
    "sc_new (ve_crypto V) ss vm (VoteMsg (vmsg_vote msg)) = Inr (qc_signatures qc)"
    using process_vote_qc [OF sc e2v_of_validators(1) [OF assms(1,3)] assms(2,5,7)] by blast
  have "accepts (verify_qc K (ve_crypto V) (ve_e2v V) qc)"
    using verify_qc_accepts [OF assms(1) _ assms(4) _ ss(2), of qc] assms(3,6) ss(1,3) by simp
  then show ?thesis
    by (simp add: accepts_def)
qed

section \<open>Agreement on certified blocks\<close>

text \<open>
  A node is correct when the votes it signs are those of a run of its safety module: each names the
  block of a tip the module let it vote for in that round.
\<close>

definition votes_by_safety ::
  "('s, 'e) validation_env \<Rightarrow> validator_mapping \<Rightarrow> node_id \<Rightarrow> bool" where
  "votes_by_safety V vm n \<longleftrightarrow>
     (\<exists>s calls votes s'. safety_run s calls votes s' \<and>
        (\<forall>v sig. signer_valid (ve_valid V) vm (VoteMsg v) n sig \<longrightarrow>
           (\<exists>tip. (v_round v, tip) \<in> votes \<and> v_id v = header_id (ve_crypto V) (tip_block_header tip))))"

lemma votes_by_safety_unique:
  assumes "votes_by_safety V vm n" and "signer_valid (ve_valid V) vm (VoteMsg v) n sig"
    and "signer_valid (ve_valid V) vm (VoteMsg v') n sig'" and "v_round v = v_round v'"
  shows "v_id v = v_id v'"
proof -
  obtain s calls votes s' where run: "safety_run s calls votes s'"
    and votes: "\<And>v sig. signer_valid (ve_valid V) vm (VoteMsg v) n sig \<Longrightarrow>
      \<exists>tip. (v_round v, tip) \<in> votes \<and> v_id v = header_id (ve_crypto V) (tip_block_header tip)"
    using assms(1) unfolding votes_by_safety_def by blast
  obtain tip tip' where t: "(v_round v, tip) \<in> votes" "v_id v = header_id (ve_crypto V) (tip_block_header tip)"
    "(v_round v', tip') \<in> votes" "v_id v' = header_id (ve_crypto V) (tip_block_header tip')"
    using votes [OF assms(2)] votes [OF assms(3)] by blast
  have "tip = tip'"
    using votes_inv_run [OF run] t assms(4) unfolding votes_inv_def by metis
  then show ?thesis
    using t by simp
qed

lemma verify_qc_certified:
  assumes "validation_env_ok V" and "cache_ops_ok K" and "cache_sound K V cache"
    and "verify_qc K (ve_crypto V) (ve_e2v V) qc cache = Some (Inr (), cache')"
  shows "qc_certified V qc"
  using verify_qc_checks [OF assms(1,2), of qc, unfolded checks_def] assms(3,4) by fastforce

text \<open>
  C6. Agreement: while the validators that do not vote through their safety module (\<open>F\<close>) hold less than
  a third of the stake, two quorum certificates of one round that validation accepts, at any two
  nodes, certify the same block. It combines voting safety, the intersection of super-majorities and
  the soundness of \<open>verify_qc\<close>.
\<close>

theorem accepted_qcs_agree:
  assumes "validation_env_ok V" and "cache_ops_ok K"
    and "cache_sound K V cache1" and "cache_sound K V cache2"
    and "verify_qc K (ve_crypto V) (ve_e2v V) qc1 cache1 = Some (Inr (), cache1')"
    and "verify_qc K (ve_crypto V) (ve_e2v V) qc2 cache2 = Some (Inr (), cache2')"
    and "qc_round qc1 = qc_round qc2"
    and "map_of (ve_vem V) (qc_epoch qc1) = Some (vs, vm)" and "vs_safe vs" and "vs_tolerates vs F"
    and "\<And>n. n \<notin> F \<Longrightarrow> votes_by_safety V vm n"
  shows "qc_block_id qc1 = qc_block_id qc2"
proof -
  have c: "qc_certified V qc1" "qc_certified V qc2"
    using verify_qc_certified [OF assms(1,2)] assms(3-6) by blast+
  show ?thesis
  proof (cases "qc_round qc1 = GENESIS_ROUND")
    case True
    then show ?thesis
      using c assms(7) by (auto simp: qc_certified_def)
  next
    case False
    have e: "qc_epoch qc2 = qc_epoch qc1"
      using c assms(7) by (auto simp: qc_certified_def validators_of_def)
    have q: "quorum_signed (ve_valid V) vs vm (VoteMsg (qc_info qc1))"
      "quorum_signed (ve_valid V) vs vm (VoteMsg (qc_info qc2))"
      using c False assms(7,8) e by (auto simp: qc_certified_def validators_of_def)
    obtain A B where A: "is_quorum vs A" "\<forall>n \<in> set A. \<exists>sig. signer_valid (ve_valid V) vm (VoteMsg (qc_info qc1)) n sig"
      and B: "is_quorum vs B" "\<forall>n \<in> set B. \<exists>sig. signer_valid (ve_valid V) vm (VoteMsg (qc_info qc2)) n sig"
      using q unfolding quorum_signed_def by blast
    let ?signs = "\<lambda>n b. \<exists>v sig. signer_valid (ve_valid V) vm (VoteMsg v) n sig \<and> v_round v = qc_round qc1 \<and> v_id v = b"
    show ?thesis
    proof (rule vq.quorum_value_unique [where signs = ?signs, OF assms(9,10) A(1) B(1)])
      show "\<forall>n \<in> set A. ?signs n (qc_block_id qc1)" "\<forall>n \<in> set B. ?signs n (qc_block_id qc2)"
        using A(2) B(2) assms(7) by metis+
      show "b = b'" if "n \<notin> F" "?signs n b" "?signs n b'" for n b b'
        using that votes_by_safety_unique [OF assms(11)] by metis
    qed
  qed
qed

section \<open>Certificates of timeouts\<close>

lemma add_signers_complete:
  "distinct ns \<Longrightarrow> set ns \<inter> seen = {} \<Longrightarrow> add_signers ns seen = Inr (seen \<union> set ns)"
  by (induction ns arbitrary: seen) auto

lemma tip_rounds_loop_step:
  assumes "ht_high_qc_round t < r" and "(ht_high_qc_round t, ht_high_tip_round t) \<notin> seen_tips"
    and "check_signatures C vm (TimeoutMsg (tuple_info e r t)) (ht_sigs t) = Inr signers"
    and "add_signers signers seen = Inr seen'"
  shows "tip_rounds_loop C vm e r (t # ts) ns hq ht seen_tips seen =
    tip_rounds_loop C vm e r ts (ns @ signers)
      (if hq < ht_high_qc_round t then ht_high_qc_round t else hq)
      (if ht < ht_high_tip_round t then ht_high_tip_round t else ht)
      (insert (ht_high_qc_round t, ht_high_tip_round t) seen_tips) seen'"
  using assms by (simp add: Let_def tuple_info_def)

text \<open>
  The loop of \<open>verify_tc\<close> accepts the tuples that \<open>TimeoutCertificate::new\<close> forms from groups of
  signatures over distinct infos of the round and by distinct nodes.
\<close>

lemma tip_rounds_loop_complete:
  assumes V: "validation_env_ok V" and vm: "vm_wf vm"
    and "list_all2 (\<lambda>(ti, sigs) tup. sc_new (ve_crypto V) sigs vm (TimeoutMsg ti) = Inr (ht_sigs tup) \<and>
      ht_high_qc_round tup = ti_high_qc_round ti \<and> ht_high_tip_round tup = ti_high_tip_round ti) groups ts"
    and "\<forall>(ti, sigs) \<in> set groups. ti_epoch ti = e \<and> ti_round ti = r \<and> ti_high_qc_round ti < r \<and>
      (ti_high_qc_round ti, ti_high_tip_round ti) \<notin> seen_tips \<and> fst ` set sigs \<inter> set ns = {}"
    and "distinct (map fst groups)"
    and "\<forall>(ti, sigs) \<in> set groups. \<forall>(ti', sigs') \<in> set groups. ti \<noteq> ti' \<longrightarrow> fst ` set sigs \<inter> fst ` set sigs' = {}"
  shows "\<exists>ns' hq' ht'. tip_rounds_loop (ve_crypto V) vm e r ts ns hq ht seen_tips (set ns) = Inr (ns', hq', ht') \<and>
    set ns' = set ns \<union> (\<Union>(ti, sigs) \<in> set groups. fst ` set sigs)"
  using assms(3-6)
proof (induction groups ts arbitrary: ns hq ht seen_tips rule: list_all2_induct)
  case (Cons g groups t ts)
  obtain ti sigs where g: "g = (ti, sigs)"
    by (cases g)
  have t: "sc_new (ve_crypto V) sigs vm (TimeoutMsg ti) = Inr (ht_sigs t)"
      "ht_high_qc_round t = ti_high_qc_round ti" "ht_high_tip_round t = ti_high_tip_round ti"
    using Cons.hyps(1) g by simp_all
  have ti: "ti_epoch ti = e" "ti_round ti = r" "ti_high_qc_round ti < r"
      "(ti_high_qc_round ti, ti_high_tip_round ti) \<notin> seen_tips" "fst ` set sigs \<inter> set ns = {}"
    using bspec [OF Cons.prems(1), of g] g by simp_all
  have rest: "ti_epoch ti' = e" "ti_round ti' = r" "ti_high_qc_round ti' < r"
      "(ti_high_qc_round ti', ti_high_tip_round ti') \<notin> seen_tips" "fst ` set sigs' \<inter> set ns = {}" "ti' \<noteq> ti"
      "fst ` set sigs \<inter> fst ` set sigs' = {}"
    if m: "(ti', sigs') \<in> set groups" for ti' sigs'
  proof -
    show "ti_epoch ti' = e" "ti_round ti' = r" "ti_high_qc_round ti' < r"
      "(ti_high_qc_round ti', ti_high_tip_round ti') \<notin> seen_tips" "fst ` set sigs' \<inter> set ns = {}"
      using bspec [OF Cons.prems(1), of "(ti', sigs')"] m by simp_all
    have "ti' \<in> fst ` set groups"
      using m by (rule image_eqI [rotated]) simp
    then show n: "ti' \<noteq> ti"
      using Cons.prems(2) g by auto
    have "\<forall>(ti', sigs') \<in> set groups. ti \<noteq> ti' \<longrightarrow> fst ` set sigs \<inter> fst ` set sigs' = {}"
      using bspec [OF Cons.prems(3), of g] by (simp add: g)
    from bspec [OF this, of "(ti', sigs')"] show "fst ` set sigs \<inter> fst ` set sigs' = {}"
      using m n by simp
  qed
  have info: "tuple_info e r t = ti"
    using t ti by (simp add: tuple_info_def)
  obtain signers where s: "check_signatures (ve_crypto V) vm (TimeoutMsg ti) (ht_sigs t) = Inr signers"
    "set signers = fst ` set sigs" "distinct signers"
    using new_signatures_verify [OF V vm t(1)] by blast
  have add: "add_signers signers (set ns) = Inr (set (ns @ signers))"
    using s ti(5) by (simp add: add_signers_complete)
  have tips: "(ti_high_qc_round ti', ti_high_tip_round ti') \<noteq> (ti_high_qc_round ti, ti_high_tip_round ti)"
    if "(ti', sigs') \<in> set groups" for ti' sigs'
    using rest [OF that] ti(1,2) by (auto intro: timeout_info.equality)
  have disjoint: "fst ` set sigs' \<inter> set (ns @ signers) = {}" if "(ti', sigs') \<in> set groups" for ti' sigs'
    unfolding set_append s(2) Int_Un_distrib using rest(5,7) [OF that] by (simp add: Int_commute)
  let ?hq = "if hq < ht_high_qc_round t then ht_high_qc_round t else hq"
  let ?ht = "if ht < ht_high_tip_round t then ht_high_tip_round t else ht"
  let ?seen = "insert (ht_high_qc_round t, ht_high_tip_round t) seen_tips"
  have "\<exists>ns' hq' ht'. tip_rounds_loop (ve_crypto V) vm e r ts (ns @ signers) ?hq ?ht ?seen (set (ns @ signers)) =
      Inr (ns', hq', ht') \<and> set ns' = set (ns @ signers) \<union> (\<Union>(ti, sigs) \<in> set groups. fst ` set sigs)"
  proof (rule Cons.IH)
    show "\<forall>(ti, sigs) \<in> set groups. ti_epoch ti = e \<and> ti_round ti = r \<and> ti_high_qc_round ti < r \<and>
        (ti_high_qc_round ti, ti_high_tip_round ti) \<notin> ?seen \<and> fst ` set sigs \<inter> set (ns @ signers) = {}"
    proof (rule ballI)
      fix x
      assume x: "x \<in> set groups"
      obtain ti' sigs' where p: "x = (ti', sigs')"
        by (cases x)
      show "case x of (ti, sigs) \<Rightarrow> ti_epoch ti = e \<and> ti_round ti = r \<and> ti_high_qc_round ti < r \<and>
          (ti_high_qc_round ti, ti_high_tip_round ti) \<notin> ?seen \<and> fst ` set sigs \<inter> set (ns @ signers) = {}"
        using rest(1-4) [OF x [unfolded p]] tips [OF x [unfolded p]] disjoint [OF x [unfolded p]]
        by (simp only: p prod.case insert_iff t simp_thms)
    qed
    show "distinct (map fst groups)"
      using Cons.prems(2) by simp
    show "\<forall>(ti, sigs) \<in> set groups. \<forall>(ti', sigs') \<in> set groups. ti \<noteq> ti' \<longrightarrow> fst ` set sigs \<inter> fst ` set sigs' = {}"
    proof (rule ballI)
      fix x
      assume "x \<in> set groups"
      then show "case x of (ti, sigs) \<Rightarrow> \<forall>(ti', sigs') \<in> set groups. ti \<noteq> ti' \<longrightarrow>
          fst ` set sigs \<inter> fst ` set sigs' = {}"
        using bspec [OF Cons.prems(3), of x] by (simp add: case_prod_beta)
    qed
  qed
  then obtain ns' hq' ht' where l: "tip_rounds_loop (ve_crypto V) vm e r ts (ns @ signers) ?hq ?ht ?seen
      (set (ns @ signers)) = Inr (ns', hq', ht')"
    "set ns' = set (ns @ signers) \<union> (\<Union>(ti, sigs) \<in> set groups. fst ` set sigs)"
    by blast
  have "tip_rounds_loop (ve_crypto V) vm e r (t # ts) ns hq ht seen_tips (set ns) = Inr (ns', hq', ht')"
    using tip_rounds_loop_step [OF _ _ s(1) [folded info] add, of seen_tips ts ns hq ht] t ti l(1) by simp
  moreover have "set ns' = set ns \<union> (\<Union>(ti, sigs) \<in> set (g # groups). fst ` set sigs)"
    by (simp add: l(2) s(2) g Un_assoc)
  ultimately show ?case
    by blast
qed simp

text \<open>The highest extension the timeouts report is the one the certificate carries.\<close>

lemma new_tc_highest:
  assumes "timeout_certificate_new C e r ts vm = Some (Inr tc)"
    and "\<forall>(n, t) \<in> set ts. case tm_high_extend t of
        HEV_Qc qc \<Rightarrow> ti_high_tip_round (tm_tminfo t) = GENESIS_ROUND \<and> ti_high_qc_round (tm_tminfo t) = qc_round qc
      | HEV_Tip tip _ \<Rightarrow>
          ti_high_tip_round (tm_tminfo t) = tip_round tip \<and> ti_high_qc_round (tm_tminfo t) < tip_round tip"
  shows "\<forall>t \<in> set (tc_tip_rounds tc). 2 * ht_high_qc_round t + 1 \<le> high_extend_rank (tc_high_extend tc) \<and>
      2 * ht_high_tip_round t \<le> high_extend_rank (tc_high_extend tc)"
    and "case tc_high_extend tc of
        HE_Qc qc \<Rightarrow> qc_round qc = GENESIS_ROUND \<or> (\<exists>t \<in> set (tc_tip_rounds tc). ht_high_qc_round t = qc_round qc)
      | HE_Tip tip \<Rightarrow> (\<exists>t \<in> set (tc_tip_rounds tc). ht_high_tip_round t = tip_round tip)" (is ?highest)
proof -
  have spec: "\<forall>(n, t) \<in> set ts. \<not> high_extend_gt (high_extend_from_vote (tm_high_extend t)) (tc_high_extend tc)"
    "tc_high_extend tc \<in> (\<lambda>(n, t). high_extend_from_vote (tm_high_extend t)) ` set ts \<or>
      (\<exists>qc. genesis_qc C = Some qc \<and> tc_high_extend tc = HE_Qc qc)"
    "\<forall>tup \<in> set (tc_tip_rounds tc). \<exists>(n, t) \<in> set ts. tuple_covers C vm ts t tup"
    "\<forall>(n, t) \<in> set ts. \<exists>tup \<in> set (tc_tip_rounds tc). tuple_covers C vm ts t tup"
    using timeout_certificate_new_spec [OF assms(1)] by simp_all
  have info: "case tm_high_extend t of
        HEV_Qc qc \<Rightarrow> ti_high_tip_round (tm_tminfo t) = GENESIS_ROUND \<and> ti_high_qc_round (tm_tminfo t) = qc_round qc
      | HEV_Tip tip _ \<Rightarrow>
          ti_high_tip_round (tm_tminfo t) = tip_round tip \<and> ti_high_qc_round (tm_tminfo t) < tip_round tip"
    and rank: "high_extend_rank (high_extend_from_vote (tm_high_extend t)) \<le> high_extend_rank (tc_high_extend tc)"
    if "(n, t) \<in> set ts" for n t
    using bspec [OF assms(2) that] bspec [OF spec(1) that] by (simp_all add: high_extend_gt_iff)
  show "\<forall>t \<in> set (tc_tip_rounds tc). 2 * ht_high_qc_round t + 1 \<le> high_extend_rank (tc_high_extend tc) \<and>
      2 * ht_high_tip_round t \<le> high_extend_rank (tc_high_extend tc)"
  proof
    fix tup
    assume "tup \<in> set (tc_tip_rounds tc)"
    then obtain n t where t: "(n, t) \<in> set ts" "tuple_covers C vm ts t tup"
      using spec(3) by blast
    then show "2 * ht_high_qc_round tup + 1 \<le> high_extend_rank (tc_high_extend tc) \<and>
        2 * ht_high_tip_round tup \<le> high_extend_rank (tc_high_extend tc)"
      using info [OF t(1)] rank [OF t(1)]
      by (cases "tm_high_extend t") (auto simp: tuple_covers_def GENESIS_ROUND_def)
  qed
  have from_ts: ?highest if m: "(n, t) \<in> set ts" and he: "tc_high_extend tc = high_extend_from_vote (tm_high_extend t)" for n t
  proof -
    obtain tup where "tup \<in> set (tc_tip_rounds tc)" "tuple_covers C vm ts t tup"
      using bspec [OF spec(4) m] by auto
    then show ?highest
      using info [OF m] he by (cases "tm_high_extend t") (auto simp: tuple_covers_def)
  qed
  show ?highest
    using spec(2)
  proof
    assume "tc_high_extend tc \<in> (\<lambda>(n, t). high_extend_from_vote (tm_high_extend t)) ` set ts"
    then show ?highest
      using from_ts by auto
  qed (auto simp: genesis_qc_def split: sum.splits)
qed

lemma highest_accepts:
  assumes "\<forall>t \<in> set ts. 2 * ht_high_qc_round t + 1 \<le> high_extend_rank he \<and> 2 * ht_high_tip_round t \<le> high_extend_rank he"
    and "case he of
        HE_Qc qc \<Rightarrow> qc_round qc = GENESIS_ROUND \<or> (\<exists>t \<in> set ts. ht_high_qc_round t = qc_round qc)
      | HE_Tip tip \<Rightarrow> (\<exists>t \<in> set ts. ht_high_tip_round t = tip_round tip)"
    and "\<forall>t \<in> set ts. ht_high_qc_round t \<le> hq \<and> ht_high_tip_round t \<le> ht"
    and "hq = GENESIS_ROUND \<or> (\<exists>t \<in> set ts. ht_high_qc_round t = hq)"
    and "ht = GENESIS_ROUND \<or> (\<exists>t \<in> set ts. ht_high_tip_round t = ht)"
  shows "accepts (check_highest he hq ht)"
proof -
  have hq: "hq = 0 \<or> 2 * hq + 1 \<le> high_extend_rank he" and ht: "2 * ht \<le> high_extend_rank he"
    using assms(1,4,5) by (auto simp: GENESIS_ROUND_def)
  show ?thesis
  proof (cases he)
    case (HE_Qc qc)
    then have "qc_round qc \<le> hq"
      using assms(2,3) by (auto simp: GENESIS_ROUND_def)
    then have "qc_round qc = hq" "ht \<le> hq"
      using hq ht HE_Qc by auto
    then show ?thesis
      using HE_Qc by (auto intro!: accepts_that)
  next
    case (HE_Tip tip)
    then obtain t where t: "t \<in> set ts" "ht_high_tip_round t = tip_round tip"
      using assms(2) by auto
    then have "tip_round tip \<le> ht" "0 < tip_round tip"
      using assms(1,3) HE_Tip by force+
    then have "tip_round tip = ht" "hq < ht"
      using hq ht HE_Tip by auto
    then show ?thesis
      using HE_Tip by (auto intro!: accepts_that)
  qed
qed

lemma verify_tc_accepts:
  fixes K :: "('s, 'e, 'k, 'l) cache_ops"
  assumes "e2v (tc_epoch tc) (tc_round tc) = Some (Inr (vs, vm, leader))"
    and "tip_rounds_loop C vm (tc_epoch tc) (tc_round tc) (tc_tip_rounds tc) [] GENESIS_ROUND GENESIS_ROUND {} {} =
      Inr (ns, hq, ht)"
    and "is_quorum vs ns" and "accepts (verify_high_extend K C e2v (tc_high_extend tc))"
    and "accepts (check_highest (tc_high_extend tc) hq ht :: ('l, unit) checks)"
  shows "accepts (verify_tc K C e2v tc)"
  unfolding verify_tc.simps assms(1) using assms(2-5)
  by (auto intro!: accepts_cached accepts_lift_bind accepts_then accepts_super_majority accepts_update)

lemma new_tc_groups:
  assumes "timeout_certificate_new C e r ts vm = Some (Inr tc)" and "distinct (map fst ts)"
  obtains groups where
    "list_all2 (\<lambda>(ti, sigs) tup. sc_new C sigs vm (TimeoutMsg ti) = Inr (ht_sigs tup) \<and>
       ht_high_qc_round tup = ti_high_qc_round ti \<and> ht_high_tip_round tup = ti_high_tip_round ti)
       groups (tc_tip_rounds tc)"
    and "distinct (map fst groups)"
    and "\<forall>ti sigs. (ti, sigs) \<in> set groups \<longleftrightarrow> sigs = signers_of ts ti \<and> (\<exists>(n, t) \<in> set ts. tm_tminfo t = ti)"
    and "tc_epoch tc = e" and "tc_round tc = r"
proof -
  obtain gqc h groups where g: "genesis_qc C = Some gqc" "tc_collect ts (HE_Qc gqc) [] = (h, groups)"
    and r: "tc_tip_rounds_of C vm groups = Inr (tc_tip_rounds tc)" "tc_epoch tc = e" "tc_round tc = r"
    using assms(1)
    by (auto simp: timeout_certificate_new_def try_then_eq_Inr split: Option.bind_splits prod.splits)
  have "distinct (map fst groups)"
    using tc_collect_sigs [OF g(2)] by (simp add: hm_wf_def)
  then show thesis
    using that [OF tc_tip_rounds_of_ok [OF r(1)]] tc_groups_exact [OF g(2)] r(2,3) by blast
qed

lemma signers_of_nodes: "fst ` set (signers_of ts ti) = {n. \<exists>t. (n, t) \<in> set ts \<and> tm_tminfo t = ti}"
  by (force simp: signers_of_def)

text \<open>Its extension is one of the timeouts': it is the genesis QC only if a timeout extends that.\<close>

lemma new_tc_extension:
  assumes "timeout_certificate_new (ve_crypto V) e r ts vm = Some (Inr tc)" and "ts \<noteq> []"
    and "\<forall>(n, t) \<in> set ts. timeout_certified V t"
  shows "\<exists>(n, t) \<in> set ts. tc_high_extend tc = high_extend_from_vote (tm_high_extend t)"
proof -
  note spec = timeout_certificate_new_spec [OF assms(1)]
  have "\<exists>(n, t) \<in> set ts. tc_high_extend tc = high_extend_from_vote (tm_high_extend t)"
    if g: "genesis_qc (ve_crypto V) = Some qc" "tc_high_extend tc = HE_Qc qc" for qc
  proof -
    obtain n t where t: "(n, t) \<in> set ts"
      using assms(2) by (cases ts) auto
    have c: "timeout_certified V t"
      using bspec [OF assms(3) t] by simp
    have "qc_round qc = 0"
      using g(1) by (auto simp: genesis_qc_def GENESIS_ROUND_def split: sum.splits)
    then have rank: "high_extend_rank (high_extend_from_vote (tm_high_extend t)) \<le> 1"
      using spec bspec [OF conjunct1 [OF conjunct2 [OF conjunct2 [OF spec]]] t] g(2) by (simp add: high_extend_gt_iff)
    have "high_extend_from_vote (tm_high_extend t) = HE_Qc qc"
    proof (cases "tm_high_extend t")
      case (HEV_Qc qc')
      then have "qc_round qc' = GENESIS_ROUND" "qc_certified V qc'"
        using rank c by (simp_all add: timeout_certified_def GENESIS_ROUND_def)
      then show ?thesis
        using g(1) HEV_Qc by (auto simp: qc_certified_def)
    next
      case (HEV_Tip tip sig)
      then show ?thesis
        using rank c by (simp add: timeout_certified_def)
    qed
    then show ?thesis
      using t g(2) by (intro bexI [OF _ t]) simp
  qed
  then show ?thesis
    using spec by (auto simp: image_iff)
qed

lemma new_tc_loop:
  assumes V: "validation_env_ok V" and vm: "vm_wf vm" and dist: "distinct (map fst ts)"
    and info: "\<forall>(n, t) \<in> set ts. ti_epoch (tm_tminfo t) = e \<and> ti_round (tm_tminfo t) = r \<and>
      ti_high_qc_round (tm_tminfo t) < r"
    and new: "timeout_certificate_new (ve_crypto V) e r ts vm = Some (Inr tc)"
  shows "\<exists>ns hq ht. tip_rounds_loop (ve_crypto V) vm e r (tc_tip_rounds tc) [] GENESIS_ROUND GENESIS_ROUND {} {} =
      Inr (ns, hq, ht) \<and> set (map fst ts) \<subseteq> set ns \<and> tc_epoch tc = e \<and> tc_round tc = r"
proof -
  let ?C = "ve_crypto V"
  obtain groups where g: "list_all2 (\<lambda>(ti, sigs) tup. sc_new ?C sigs vm (TimeoutMsg ti) = Inr (ht_sigs tup) \<and>
       ht_high_qc_round tup = ti_high_qc_round ti \<and> ht_high_tip_round tup = ti_high_tip_round ti)
       groups (tc_tip_rounds tc)"
    and d: "distinct (map fst groups)"
    and "\<forall>ti sigs. (ti, sigs) \<in> set groups \<longleftrightarrow> sigs = signers_of ts ti \<and> (\<exists>(n, t) \<in> set ts. tm_tminfo t = ti)"
    and tc: "tc_epoch tc = e" "tc_round tc = r"
    using new_tc_groups [OF new dist] by blast
  then have m: "(ti, sigs) \<in> set groups \<longleftrightarrow> sigs = signers_of ts ti \<and> (\<exists>(n, t) \<in> set ts. tm_tminfo t = ti)"
    for ti :: timeout_info and sigs
    by blast
  have rounds: "\<forall>(ti, sigs) \<in> set groups. ti_epoch ti = e \<and> ti_round ti = r \<and> ti_high_qc_round ti < r \<and>
      (ti_high_qc_round ti, ti_high_tip_round ti) \<notin> {} \<and> fst ` set sigs \<inter> set [] = {}"
  proof (rule ballI)
    fix x
    assume x: "x \<in> set groups"
    obtain ti sigs where p: "x = (ti, sigs)"
      by (cases x)
    then obtain n t where "(n, t) \<in> set ts" "tm_tminfo t = ti"
      using x m by auto
    then show "case x of (ti, sigs) \<Rightarrow> ti_epoch ti = e \<and> ti_round ti = r \<and> ti_high_qc_round ti < r \<and>
        (ti_high_qc_round ti, ti_high_tip_round ti) \<notin> {} \<and> fst ` set sigs \<inter> set [] = {}"
      using bspec [OF info] p by force
  qed
  have disjoint: "\<forall>(ti, sigs) \<in> set groups. \<forall>(ti', sigs') \<in> set groups. ti \<noteq> ti' \<longrightarrow>
      fst ` set sigs \<inter> fst ` set sigs' = {}"
  proof (clarify, unfold m, clarify)
    fix ti ti' :: timeout_info
    assume "ti \<noteq> ti'"
    then show "fst ` set (signers_of ts ti) \<inter> fst ` set (signers_of ts ti') = {}"
      unfolding signers_of_nodes using dist by (auto dest: eq_key_imp_eq_value)
  qed
  obtain ns hq ht where l: "tip_rounds_loop ?C vm e r (tc_tip_rounds tc) [] GENESIS_ROUND GENESIS_ROUND {} {} =
      Inr (ns, hq, ht)"
    and ns: "set ns = (\<Union>(ti, sigs) \<in> set groups. fst ` set sigs)"
    using tip_rounds_loop_complete [OF V vm g rounds d disjoint, of GENESIS_ROUND GENESIS_ROUND] by auto
  have "set (map fst ts) \<subseteq> set ns"
  proof
    fix n
    assume "n \<in> set (map fst ts)"
    then obtain t where t: "(n, t) \<in> set ts"
      by auto
    then have "(tm_tminfo t, signers_of ts (tm_tminfo t)) \<in> set groups"
      unfolding m by auto
    moreover have "n \<in> fst ` set (signers_of ts (tm_tminfo t))"
      unfolding signers_of_nodes using t by blast
    ultimately show "n \<in> set ns"
      unfolding ns by blast
  qed
  then show ?thesis
    using l tc by blast
qed

text \<open>
  C18. A timeout certificate that \<open>TimeoutCertificate::new\<close> builds from the timeouts of a round, by
  a super-majority of its validators, is accepted by \<open>verify_tc\<close> at every node that knows the same
  validators, provided each timeout reports the rounds of its extension (which validation of the
  timeout enforces) and a high QC round below the round that timed out (which it does not), and the
  extensions themselves are accepted.
\<close>

theorem created_tc_accepted:
  assumes "validation_env_ok V" and "vm_wf vm" and "validators_of (ve_em V) (ve_vem V) e r vs vm"
    and "distinct (map fst ts)" and "vs_safe vs" and "is_quorum vs (map fst ts)"
    and "\<forall>(n, t) \<in> set ts. ti_epoch (tm_tminfo t) = e \<and> ti_round (tm_tminfo t) = r \<and>
      ti_high_qc_round (tm_tminfo t) < r"
    and "\<forall>(n, t) \<in> set ts. timeout_certified V t"
    and "\<forall>(n, t) \<in> set ts. accepts (verify_high_extend K (ve_crypto V) (ve_e2v V) (high_extend_from_vote (tm_high_extend t)))"
    and "timeout_certificate_new (ve_crypto V) e r ts vm = Some (Inr tc)"
  shows "\<exists>cache'. verify_tc K (ve_crypto V) (ve_e2v V) tc cache = Some (Inr (), cache')"
proof -
  let ?C = "ve_crypto V"
  obtain ns hq ht where l: "tip_rounds_loop ?C vm e r (tc_tip_rounds tc) [] GENESIS_ROUND GENESIS_ROUND {} {} =
      Inr (ns, hq, ht)"
    and ns: "set (map fst ts) \<subseteq> set ns" and tc: "tc_epoch tc = e" "tc_round tc = r"
    using new_tc_loop [OF assms(1,2,4,7,10)] by blast
  have "bt_wf vm"
    using assms(2) by (simp add: vm_wf_def)
  note ok = tip_rounds_loop_ok [OF assms(1) this, of e r "tc_tip_rounds tc" "[]", simplified, OF l]
  have q: "is_quorum vs ns"
    using ok ns by (intro is_quorum_mono [OF e2v_of_validators(1) [OF assms(1,3)] assms(6)]) auto
  have "ts \<noteq> []"
    using assms(5,6) by (auto simp: is_quorum_iff set_stake_def)
  then have he: "accepts (verify_high_extend K ?C (ve_e2v V) (tc_high_extend tc))"
    using new_tc_extension [OF assms(10) _ assms(8)] assms(9) by auto
  have "\<forall>(n, t) \<in> set ts. case tm_high_extend t of
        HEV_Qc qc \<Rightarrow> ti_high_tip_round (tm_tminfo t) = GENESIS_ROUND \<and> ti_high_qc_round (tm_tminfo t) = qc_round qc
      | HEV_Tip tip _ \<Rightarrow>
          ti_high_tip_round (tm_tminfo t) = tip_round tip \<and> ti_high_qc_round (tm_tminfo t) < tip_round tip"
    using assms(8) by (auto simp: timeout_certified_def)
  note highest = new_tc_highest [OF assms(10) this]
  have high: "accepts (check_highest (tc_high_extend tc) hq ht)"
    using ok by (intro highest_accepts [OF highest]) blast+
  obtain leader where "ve_e2v V e r = Some (Inr (vs, vm, leader))"
    using e2v_of_validators(2) [OF assms(1,3)] by blast
  then have "accepts (verify_tc K ?C (ve_e2v V) tc)"
    using l q he high by (intro verify_tc_accepts [of "ve_e2v V" tc vs vm leader]) (simp_all add: tc)
  then show ?thesis
    by (simp add: accepts_def)
qed

section \<open>Instances\<close>

definition strict_vote_message :: vote_message where
  "strict_vote_message = \<lparr>vmsg_vote = strict_vote, vmsg_sig = 107\<rparr>"

lemma strict_new: "sc_new (ve_crypto strict_env) [(2, 107)] [(2, 7)] msg = Inr \<lparr>sigs = [107]\<rparr>" if "strict_msg msg"
  using that by (simp add: multi_sig_new_def multi_sig_step_simps signer_valid_def)

lemma strict_aggregate:
  "strict_msg msg \<Longrightarrow>
   aggregate_loop (ve_crypto strict_env) solo_vs [(2, 7)] msg [(2, 107)] = Some ([(2, 107)], Some \<lparr>sigs = [107]\<rparr>)"
  using solo_quorum strict_new [of msg] by (subst aggregate_loop.simps) (simp add: is_quorum_def)

lemma strict_add_pending: "add_pending_vote (vote_state_new 4) 2 strict_vote_message = [(2, 107)]"
  by (simp add: add_pending_vote_def vote_state_new_def get_or_def round_vote_state_default_def
      strict_vote_message_def)

lemma strict_process_vote:
  "\<exists>st'. process_vote (ve_crypto strict_env) (vote_state_new 4) 2 strict_vote_message solo_vs [(2, 7)] =
     Some (st', Some strict_qc)"
proof -
  have "strict_msg (VoteMsg (vmsg_vote strict_vote_message))"
    by (simp add: strict_vote_message_def)
  from strict_aggregate [OF this] show ?thesis
    unfolding process_vote_def strict_add_pending
    by (simp add: vote_state_new_def strict_vote_message_def strict_vote_def strict_qc_def Let_def round_add_def
        checked_add_u64_def)
qed

lemma strict_validators: "validators_of (ve_em strict_env) (ve_vem strict_env) 3 r solo_vs [(2, 7)]"
  by (simp add: validators_of_def get_epoch_def demo_em_def)

lemma strict_vm_wf: "vm_wf [(2, 7)]"
  by (simp add: vm_wf_def bt_wf_def)

theorem created_qc_accepted_witness:
  "\<exists>st' qc cache'. process_vote (ve_crypto strict_env) (vote_state_new 4) 2 strict_vote_message solo_vs [(2, 7)] =
       Some (st', Some qc) \<and>
     verify_qc demo_cache_ops (ve_crypto strict_env) (ve_e2v strict_env) qc
       (certificate_cache_default demo_cache_ops) = Some (Inr (), cache')"
proof -
  obtain st' where p: "process_vote (ve_crypto strict_env) (vote_state_new 4) 2 strict_vote_message solo_vs [(2, 7)] =
      Some (st', Some strict_qc)"
    using strict_process_vote by blast
  have v: "validators_of (ve_em strict_env) (ve_vem strict_env) (v_epoch (vmsg_vote strict_vote_message))
      (v_round (vmsg_vote strict_vote_message)) solo_vs [(2, 7)]"
    using strict_validators by (simp add: strict_vote_message_def strict_vote_def)
  have "fst ` set (add_pending_vote (vote_state_new 4) 2 strict_vote_message) \<subseteq> fst ` set [(2, 7)]"
    by (simp add: strict_add_pending)
  moreover have "v_round (vmsg_vote strict_vote_message) \<noteq> GENESIS_ROUND"
    by (simp add: strict_vote_message_def strict_vote_def GENESIS_ROUND_def)
  ultimately show ?thesis
    using created_qc_accepted [OF strict_env_ok vote_state_wf_new v strict_vm_wf _ _ p] p by blast
qed

definition strict_tip :: "(multi_sig, unit) consensus_tip" where
  "strict_tip =
     \<lparr>tip_block_header =
        \<lparr>h_block_round = 5, h_epoch = 3, h_qc = demo_qc 4, h_author = 2, h_seq_num = 2, h_timestamp_ns = 1,
         h_round_signature = 0, h_delayed_execution_results = [], h_execution_inputs = (), h_block_body_id = 0\<rparr>,
      tip_signature = 102, tip_fresh_certificate = None\<rparr>"

lemma strict_votes_by_safety: "votes_by_safety strict_env [(2, 7)] n"
proof -
  have "safety_exec safety_default (CastVote 5 None strict_tip) =
      Some (safety_default\<lparr>highest_vote := 5, maybe_high_tip := Some strict_tip\<rparr>)"
    by (simp add: safety_defs safety_default_def strict_tip_def demo_qc_def GENESIS_ROUND_def)
  then have "safety_run safety_default ([] @ [CastVote 5 None strict_tip])
      ({} \<union> signed_votes safety_default (CastVote 5 None strict_tip))
      (safety_default\<lparr>highest_vote := 5, maybe_high_tip := Some strict_tip\<rparr>)"
    by (rule run_step [OF run_init])
  then show ?thesis
    unfolding votes_by_safety_def
    by (intro exI conjI) (auto simp: signer_valid_def strict_vote_def strict_tip_def)
qed

theorem accepted_qcs_agree_witness:
  "\<exists>cache'. verify_qc demo_cache_ops (ve_crypto strict_env) (ve_e2v strict_env) strict_qc
     (certificate_cache_default demo_cache_ops) = Some (Inr (), cache') \<and>
     qc_block_id strict_qc = qc_block_id strict_qc"
proof -
  have tolerates: "vs_tolerates solo_vs {}"
    by (simp add: vs_tolerates_def set_stake_def solo_vs_def)
  have lookup: "map_of (ve_vem strict_env) (qc_epoch strict_qc) = Some (solo_vs, [(2, 7)])"
    by (simp add: strict_qc_def strict_vote_def)
  note sound = cache_sound_default [OF demo_cache_ops_ok, of strict_env]
  show ?thesis
    using accepted_qcs_agree [OF strict_env_ok demo_cache_ops_ok sound sound strict_verify_qc strict_verify_qc refl
        lookup solo_vs_safe tolerates strict_votes_by_safety] strict_verify_qc by blast
qed

definition strict_timeout :: "(multi_sig, unit) timeout" where
  "strict_timeout = timeout_new (ve_crypto strict_env) 7
     \<lparr>ti_epoch = 3, ti_round = 6, ti_high_qc_round = 5, ti_high_tip_round = 0\<rparr> (HE_Qc strict_qc) None"

lemma strict_timeout_simps [simp]:
  "tm_tminfo strict_timeout = \<lparr>ti_epoch = 3, ti_round = 6, ti_high_qc_round = 5, ti_high_tip_round = 0\<rparr>"
  "tm_high_extend strict_timeout = HEV_Qc strict_qc" "tm_timeout_signature strict_timeout = 107"
  "tm_last_round_certificate strict_timeout = None"
  by (simp_all add: strict_timeout_def timeout_new_def)

lemma strict_genesis: "\<exists>g. genesis_qc (ve_crypto strict_env) = Some g \<and> qc_round g = GENESIS_ROUND"
proof -
  obtain g where "genesis_qc (ve_crypto strict_env) = Some g"
    using signature_collection.genesis_qc_defined [of "ve_crypto strict_env" "ve_valid strict_env"] strict_env_ok
    unfolding validation_env_ok_def by blast
  then show ?thesis
    by (auto simp: genesis_qc_def split: sum.splits)
qed

theorem created_tc_accepted_witness:
  "\<exists>tc cache'. timeout_certificate_new (ve_crypto strict_env) 3 6 [(2, strict_timeout)] [(2, 7)] = Some (Inr tc) \<and>
     verify_tc demo_cache_ops (ve_crypto strict_env) (ve_e2v strict_env) tc
       (certificate_cache_default demo_cache_ops) = Some (Inr (), cache')"
proof -
  have "sc_new (ve_crypto strict_env) [(2, 107)] [(2, 7)] (TimeoutMsg (tm_tminfo strict_timeout)) = Inr \<lparr>sigs = [107]\<rparr>"
    by (rule strict_new) simp
  moreover note strict_genesis
  ultimately obtain tc where tc: "timeout_certificate_new (ve_crypto strict_env) 3 6 [(2, strict_timeout)] [(2, 7)] =
      Some (Inr tc)"
    by (auto simp: timeout_certificate_new_def get_or_def)
  have certified: "timeout_certified strict_env strict_timeout"
    using verify_qc_certified [OF strict_env_ok demo_cache_ops_ok cache_sound_default [OF demo_cache_ops_ok]
        strict_verify_qc]
    by (simp add: timeout_certified_def get_epoch_def demo_em_def strict_qc_def strict_vote_def GENESIS_ROUND_def)
  have he: "accepts (verify_qc demo_cache_ops (ve_crypto strict_env) (ve_e2v strict_env) strict_qc)"
    using strict_new [of "VoteMsg strict_vote"] strict_validators solo_quorum
    by (intro verify_qc_accepts [OF strict_env_ok _ strict_vm_wf, where ss = "[(2, 107)]" and vs = solo_vs])
      (simp_all add: strict_qc_def strict_vote_def GENESIS_ROUND_def)
  show ?thesis
    using created_tc_accepted [OF strict_env_ok strict_vm_wf strict_validators [of 6] _ solo_vs_safe _ _ _ _ tc,
        of demo_cache_ops] certified he solo_quorum tc by auto
qed


section \<open>A timeout that spoils the certificate\<close>

text \<open>
  A timeout for round 6 whose tip is of round 7, proposed on a certificate that nobody had a tip in
  round 6. Its claimed high-QC round is 6, which is below the tip's round but not below its own.
\<close>

definition late_tip :: "(multi_sig, unit) consensus_tip" where
  "late_tip =
     \<lparr>tip_block_header =
        \<lparr>h_block_round = 7, h_epoch = 3, h_qc = strict_qc, h_author = 2, h_seq_num = 2, h_timestamp_ns = 1,
         h_round_signature = 0, h_delayed_execution_results = [], h_execution_inputs = (), h_block_body_id = 0\<rparr>,
      tip_signature = 102,
      tip_fresh_certificate = Some (NoTip
        \<lparr>nt_epoch = 3, nt_round = 6,
         nt_tip_rounds = [\<lparr>ht_high_qc_round = 5, ht_high_tip_round = 0, ht_sigs = \<lparr>sigs = [107]\<rparr>\<rparr>],
         nt_high_qc = strict_qc\<rparr>)\<rparr>"

definition late_timeout :: "(multi_sig, unit) timeout" where
  "late_timeout =
     \<lparr>tm_tminfo = \<lparr>ti_epoch = 3, ti_round = 6, ti_high_qc_round = 6, ti_high_tip_round = 7\<rparr>,
      tm_timeout_signature = 107, tm_high_extend = HEV_Tip late_tip 107, tm_last_round_certificate = None\<rparr>"

definition late_tc :: "(multi_sig, unit) timeout_certificate" where
  "late_tc =
     \<lparr>tc_epoch = 3, tc_round = 6,
      tc_tip_rounds = [\<lparr>ht_high_qc_round = 6, ht_high_tip_round = 7, ht_sigs = \<lparr>sigs = [107]\<rparr>\<rparr>],
      tc_high_extend = HE_Tip late_tip\<rparr>"

lemma strict_e2v: "ve_e2v strict_env 3 r = Some (Inr (solo_vs, [(2, 7)], 2))"
  by (simp add: epoch_to_validators_def get_epoch_def demo_em_def get_val_set_def get_cert_pubkeys_def
      simple_get_leader_def) (simp add: solo_vs_def)

lemma strict_signatures:
  "strict_msg msg \<Longrightarrow> check_signatures (ve_crypto strict_env) [(2, 7)] msg \<lparr>sigs = [107]\<rparr> = Inr [2]"
  by (simp add: check_signatures_def multi_sig_verify_def strict_sig_ops_def multi_sig_match_loop.simps)

lemma strict_qc_accepts: "accepts (verify_qc K (ve_crypto strict_env) (ve_e2v strict_env) strict_qc)"
  using strict_new [of "VoteMsg strict_vote"] strict_validators solo_quorum
  by (intro verify_qc_accepts [OF strict_env_ok _ strict_vm_wf, where ss = "[(2, 107)]" and vs = solo_vs])
    (simp_all add: strict_qc_def strict_vote_def GENESIS_ROUND_def)

lemma late_tip_accepts:
  fixes K :: "(multi_sig, unit, 'k, 'l) cache_ops"
  shows "accepts (verify_tip K (ve_crypto strict_env) (ve_e2v strict_env) late_tip)"
proof -
  let ?tc = "no_tip_tc \<lparr>nt_epoch = 3, nt_round = 6,
    nt_tip_rounds = [\<lparr>ht_high_qc_round = 5, ht_high_tip_round = 0, ht_sigs = \<lparr>sigs = [107]\<rparr>\<rparr>],
    nt_high_qc = strict_qc\<rparr>"
  have loop: "tip_rounds_loop (ve_crypto strict_env) [(2, 7)] 3 6 (tc_tip_rounds ?tc) [] GENESIS_ROUND GENESIS_ROUND {} {} =
      Inr ([2], 5, 0)"
    using strict_signatures [of "TimeoutMsg \<lparr>ti_epoch = 3, ti_round = 6, ti_high_qc_round = 5, ti_high_tip_round = 0\<rparr>"]
    by (simp add: no_tip_tc_def GENESIS_ROUND_def try_then_def Let_def)
  have tc: "accepts (verify_tc K (ve_crypto strict_env) (ve_e2v strict_env) ?tc)"
  proof (rule verify_tc_accepts)
    show "ve_e2v strict_env (tc_epoch ?tc) (tc_round ?tc) = Some (Inr (solo_vs, [(2, 7)], 2))"
      using strict_e2v [of 6] by (simp add: no_tip_tc_def)
    show "accepts (check_highest (tc_high_extend ?tc) 5 0)"
      by (simp add: no_tip_tc_def strict_qc_def strict_vote_def accepts_that)
  qed (use loop strict_qc_accepts solo_quorum in \<open>simp_all add: no_tip_tc_def\<close>)
  have fresh: "accepts (check_fresh late_tip :: ('l, unit) checks)"
    by (simp add: check_fresh_def late_tip_def strict_qc_def strict_vote_def round_add_def checked_add_u64_def
        accepts_lift_bind accepts_that)
  have author: "accepts (check_tip_author (ve_crypto strict_env) late_tip 2 :: ('l, unit) checks)"
    by (simp add: check_tip_author_def signature_author_def late_tip_def accepts_that)
  have tip: "h_epoch (tip_block_header late_tip) = 3" "tip_round late_tip = 7" "h_qc (tip_block_header late_tip) = strict_qc"
    by (simp_all add: late_tip_def)
  have cert: "accepts (case tip_fresh_certificate late_tip of
      Some (Nec nec) \<Rightarrow> verify_nec K (ve_crypto strict_env) (ve_e2v strict_env) nec
    | Some (NoTip no_tip) \<Rightarrow> verify_tc K (ve_crypto strict_env) (ve_e2v strict_env) (no_tip_tc no_tip)
    | None \<Rightarrow> check_ok ())"
    using tc by (simp add: late_tip_def)
  show ?thesis
    unfolding verify_tip.simps tip strict_e2v
    by (rule accepts_lift_bind) (simp only: prod.case accepts_then fresh author cert strict_qc_accepts)
qed


end
