(* ===== verification/Block_Tree.thy ===== *)
theory Block_Tree
  imports Certificates "HOL-Library.Multiset"
begin

text \<open>
  The tree of uncommitted blocks (\<open>monad-blocktree/src/tree.rs\<close> and \<open>blocktree.rs\<close>): insertion,
  coherency, paths to the root, and pruning on commit. A validated block is its full block. The
  block policy's coherency check, which asks the execution state, is the argument \<open>check_coherency\<close>
  of \<open>try_update_coherency\<close>.

  The loops that follow parent or child links are \<open>partial_function\<close>s: a walk on a cyclic tree,
  which would not end, is \<open>None\<close>, as is a panic.
\<close>

section \<open>Data\<close>

datatype state_backend_error = NotAvailableYet | NeverAvailable

datatype block_policy_error =
    BlockNotCoherent
  | StateBackendErr state_backend_error
  | TimestampErr
  | ExecutionResultMismatch

record ('s, 'e) block_tree_entry =
  te_block :: "('s, 'e) consensus_full_block"
  te_coherent :: bool
  te_children :: "block_id list"

record 'e block_body_index =
  bi_body :: 'e
  bi_active_blocks :: "block_id set"

record ('s, 'e) tree =
  tr_tree :: "(block_id \<times> ('s, 'e) block_tree_entry) list"
  tr_payloads :: "(nat \<times> 'e block_body_index) list"

record ('s, 'e) block_tree =
  blk_root :: root_info
  blk_root_children :: "block_id list"
  blk_tree :: "('s, 'e) tree"

abbreviation b_id :: "('s, 'e) crypto \<Rightarrow> ('s, 'e) consensus_full_block \<Rightarrow> block_id" where
  "b_id C b \<equiv> header_id C (b_header b)"

abbreviation b_parent_id :: "('s, 'e) consensus_full_block \<Rightarrow> block_id" where
  "b_parent_id b \<equiv> qc_block_id (h_qc (b_header b))"

abbreviation b_round :: "('s, 'e) consensus_full_block \<Rightarrow> round" where
  "b_round b \<equiv> h_block_round (b_header b)"

abbreviation b_parent_round :: "('s, 'e) consensus_full_block \<Rightarrow> round" where
  "b_parent_round b \<equiv> qc_round (h_qc (b_header b))"

abbreviation b_body_id :: "('s, 'e) consensus_full_block \<Rightarrow> nat" where
  "b_body_id b \<equiv> h_block_body_id (b_header b)"

abbreviation entry_of :: "('s, 'e) block_tree \<Rightarrow> block_id \<Rightarrow> ('s, 'e) block_tree_entry option" where
  "entry_of t i \<equiv> map_of (tr_tree (blk_tree t)) i"

abbreviation root_id :: "('s, 'e) block_tree \<Rightarrow> block_id" where
  "root_id t \<equiv> ri_block_id (blk_root t)"

section \<open>The map of blocks\<close>

definition set_coherent :: "('s, 'e) tree \<Rightarrow> block_id \<Rightarrow> bool \<Rightarrow> ('s, 'e) tree option" where
  "set_coherent tr i coherent =
     (case map_of (tr_tree tr) i of
        None \<Rightarrow> None
      | Some e \<Rightarrow> Some (tr\<lparr>tr_tree := AList.update i (e\<lparr>te_coherent := coherent\<rparr>) (tr_tree tr)\<rparr>))"

definition tree_remove ::
  "('s, 'e) tree \<Rightarrow> block_id \<Rightarrow> (('s, 'e) tree \<times> ('s, 'e) block_tree_entry option) panics" where
  "tree_remove tr i =
     (case map_of (tr_tree tr) i of
        None \<Rightarrow> Some (tr, None)
      | Some removed \<Rightarrow> do {
          let payload_id = b_body_id (te_block removed);
          index \<leftarrow> map_of (tr_payloads tr) payload_id;
          rust_assert (i \<in> bi_active_blocks index);
          let active = bi_active_blocks index - {i};
          let payloads = (if active = {} then AList.delete payload_id (tr_payloads tr)
                          else AList.update payload_id (index\<lparr>bi_active_blocks := active\<rparr>) (tr_payloads tr));
          Some (\<lparr>tr_tree = AList.delete i (tr_tree tr), tr_payloads = payloads\<rparr>, Some removed) })"

definition tree_insert ::
  "('s, 'e) crypto \<Rightarrow> ('s, 'e) tree \<Rightarrow> ('s, 'e) consensus_full_block \<Rightarrow> ('s, 'e) tree panics" where
  "tree_insert C tr block = do {
     let new_block_id = b_id C block;
     let children = map fst (filter (\<lambda>(_, e). b_parent_id (te_block e) = new_block_id) (tr_tree tr));
     let entry = \<lparr>te_block = block, te_coherent = False, te_children = children\<rparr>;
     rust_assert (map_of (tr_tree tr) new_block_id = None);
     let blocks = AList.update new_block_id entry (tr_tree tr);
     let blocks' = (case map_of blocks (b_parent_id block) of
                      None \<Rightarrow> blocks
                    | Some parent \<Rightarrow>
                        AList.update (b_parent_id block)
                          (parent\<lparr>te_children := te_children parent @ [new_block_id]\<rparr>) blocks);
     let index = get_or \<lparr>bi_body = b_body block, bi_active_blocks = {}\<rparr> (tr_payloads tr) (b_body_id block);
     rust_assert (new_block_id \<notin> bi_active_blocks index);
     Some \<lparr>tr_tree = blocks',
           tr_payloads = AList.update (b_body_id block)
             (index\<lparr>bi_active_blocks := insert new_block_id (bi_active_blocks index)\<rparr>) (tr_payloads tr)\<rparr> }"

definition tree_get_payload :: "('s, 'e) tree \<Rightarrow> nat \<Rightarrow> 'e option" where
  "tree_get_payload tr body = map_option bi_body (map_of (tr_payloads tr) body)"

section \<open>The block tree\<close>

definition block_tree_new :: "root_info \<Rightarrow> ('s, 'e) block_tree" where
  "block_tree_new root =
     \<lparr>blk_root = root, blk_root_children = [], blk_tree = \<lparr>tr_tree = [], tr_payloads = []\<rparr>\<rparr>"

definition is_coherent :: "('s, 'e) block_tree \<Rightarrow> block_id \<Rightarrow> bool" where
  "is_coherent t b =
     (if b = root_id t then True
      else (case entry_of t b of Some e \<Rightarrow> te_coherent e | None \<Rightarrow> False))"

text \<open>The loop of \<open>prune\<close> up to the root, and the removal of the blocks below the new root.\<close>

partial_function (option) prune_loop ::
  "block_id \<Rightarrow> ('s, 'e) tree \<Rightarrow> ('s, 'e) block_tree_entry \<Rightarrow> ('s, 'e) consensus_full_block list \<Rightarrow>
   (('s, 'e) tree \<times> ('s, 'e) consensus_full_block list) option" where
  "prune_loop root tr entry commit =
     (if te_coherent entry then
        (if b_parent_id (te_block entry) = root then Some (tr, te_block entry # commit)
         else (case tree_remove tr (b_parent_id (te_block entry)) of
                 Some (tr', Some parent) \<Rightarrow> prune_loop root tr' parent (te_block entry # commit)
               | _ \<Rightarrow> None))
      else None)"

fun tree_remove_all :: "('s, 'e) tree \<Rightarrow> block_id list \<Rightarrow> ('s, 'e) tree panics" where
  "tree_remove_all tr [] = Some tr"
| "tree_remove_all tr (i # is) = do { (tr', _) \<leftarrow> tree_remove tr i; tree_remove_all tr' is }"

definition prune ::
  "('s, 'e) crypto \<Rightarrow> ('s, 'e) block_tree \<Rightarrow> block_id \<Rightarrow>
   (('s, 'e) block_tree \<times> ('s, 'e) consensus_full_block list) panics" where
  "prune C t new_root = do {
     rust_assert (is_coherent t new_root);
     if new_root = root_id t then Some (t, [])
     else do {
       (tr1, removed) \<leftarrow> tree_remove (blk_tree t) new_root;
       entry \<leftarrow> removed;
       (tr2, commit) \<leftarrow> prune_loop (root_id t) tr1 entry [];
       let blocks_to_delete =
         map fst (filter (\<lambda>(_, e). b_parent_round (te_block e) < b_round (te_block entry)) (tr_tree tr2));
       tr3 \<leftarrow> tree_remove_all tr2 blocks_to_delete;
       let b = te_block entry;
       Some (\<lparr>blk_root = \<lparr>ri_round = b_round b, ri_seq_num = h_seq_num (b_header b), ri_epoch = h_epoch (b_header b),
                          ri_block_id = b_id C b, ri_timestamp_ns = h_timestamp_ns (b_header b)\<rparr>,
              blk_root_children = te_children entry, blk_tree = tr3\<rparr>, commit) } }"

definition is_valid_to_insert ::
  "('s, 'e) crypto \<Rightarrow> ('s, 'e) block_tree \<Rightarrow> ('s, 'e) consensus_block_header \<Rightarrow> bool" where
  "is_valid_to_insert C t h \<longleftrightarrow> entry_of t (header_id C h) = None \<and> ri_round (blk_root t) < h_block_round h"

definition block_tree_add ::
  "('s, 'e) crypto \<Rightarrow> ('s, 'e) block_tree \<Rightarrow> ('s, 'e) consensus_full_block \<Rightarrow> ('s, 'e) block_tree panics" where
  "block_tree_add C t block =
     (if \<not> is_valid_to_insert C t (b_header block) then Some t
      else do {
        tr \<leftarrow> tree_insert C (blk_tree t) block;
        Some (t\<lparr>blk_tree := tr,
                blk_root_children := (if b_parent_id block = root_id t then blk_root_children t @ [b_id C block]
                                      else blk_root_children t)\<rparr>) })"

text \<open>The blocks from below the root to a block, lowest first.\<close>

partial_function (option) path_loop ::
  "('s, 'e) block_tree \<Rightarrow> block_id \<Rightarrow> ('s, 'e) consensus_full_block list \<Rightarrow>
   ('s, 'e) consensus_full_block list option option" where
  "path_loop t visit blocks =
     (case entry_of t visit of
        None \<Rightarrow> Some None
      | Some e \<Rightarrow>
          (if b_parent_id (te_block e) = root_id t then Some (Some (te_block e # blocks))
           else path_loop t (b_parent_id (te_block e)) (te_block e # blocks)))"

definition get_blocks_on_path_from_root ::
  "('s, 'e) block_tree \<Rightarrow> block_id \<Rightarrow> ('s, 'e) consensus_full_block list option panics" where
  "get_blocks_on_path_from_root t b = (if b = root_id t then Some (Some []) else path_loop t b [])"

text \<open>The work list of \<open>try_update_coherency\<close>, with the blocks found coherent so far.\<close>

partial_function (option) coherency_loop ::
  "('s, 'e) crypto \<Rightarrow>
   (('s, 'e) consensus_full_block \<Rightarrow> ('s, 'e) consensus_full_block list \<Rightarrow> root_info \<Rightarrow> block_policy_error + unit) \<Rightarrow>
   ('s, 'e) block_tree \<Rightarrow> block_id list \<Rightarrow> ('s, 'e) consensus_full_block list \<Rightarrow>
   (('s, 'e) block_tree \<times> ('s, 'e) consensus_full_block list) option" where
  "coherency_loop C check_coherency t queue retval =
     (case queue of
        [] \<Rightarrow> Some (t, retval)
      | next_block_id # rest \<Rightarrow>
          (case get_blocks_on_path_from_root t next_block_id of
             Some (Some path) \<Rightarrow>
               (if path = [] then None
                else
                  (case check_coherency (last path) (butlast path) (blk_root t) of
                     Inr _ \<Rightarrow>
                       (case set_coherent (blk_tree t) next_block_id True of
                          None \<Rightarrow> None
                        | Some tr \<Rightarrow>
                            (case map_of (tr_tree tr) next_block_id of
                               None \<Rightarrow> None
                             | Some e \<Rightarrow>
                                 coherency_loop C check_coherency (t\<lparr>blk_tree := tr\<rparr>) (rest @ te_children e)
                                   (retval @ [last path])))
                   | Inl _ \<Rightarrow> coherency_loop C check_coherency t rest retval))
           | _ \<Rightarrow> None))"

fun find_incoherent ::
  "('s, 'e) crypto \<Rightarrow> ('s, 'e) block_tree \<Rightarrow> ('s, 'e) consensus_full_block list \<Rightarrow>
   ('s, 'e) consensus_full_block option panics" where
  "find_incoherent C t [] = Some None"
| "find_incoherent C t (b # path) =
     (case entry_of t (b_id C b) of
        None \<Rightarrow> None
      | Some e \<Rightarrow> if te_coherent e then find_incoherent C t path else Some (Some b))"

definition block_tree_try_update_coherency ::
  "('s, 'e) crypto \<Rightarrow>
   (('s, 'e) consensus_full_block \<Rightarrow> ('s, 'e) consensus_full_block list \<Rightarrow> root_info \<Rightarrow> block_policy_error + unit) \<Rightarrow>
   ('s, 'e) block_tree \<Rightarrow> block_id \<Rightarrow> (('s, 'e) block_tree \<times> ('s, 'e) consensus_full_block list) panics" where
  "block_tree_try_update_coherency C check_coherency t block_id = do {
     path_from_root \<leftarrow> get_blocks_on_path_from_root t block_id;
     (case path_from_root of
        None \<Rightarrow> Some (t, [])
      | Some path \<Rightarrow> do {
          incoherent \<leftarrow> find_incoherent C t path;
          (case incoherent of
             None \<Rightarrow> Some (t, [])
           | Some b \<Rightarrow> coherency_loop C check_coherency t [b_id C b] []) }) }"

text \<open>
  The breadth-first search of \<open>get_high_committable_qc\<close>; \<open>committable\<close> is its body after the
  comparison with the QC found so far.
\<close>

definition committable ::
  "('s, 'e) crypto \<Rightarrow> ('s, 'e) block_tree \<Rightarrow> 's quorum_certificate \<Rightarrow> bool panics" where
  "committable C t qc =
     (case entry_of t (qc_block_id qc) of
        None \<Rightarrow> Some False
      | Some qc_parent \<Rightarrow> do {
          committable_block_id \<leftarrow> get_committable_id C qc (b_header (te_block qc_parent));
          Some (case committable_block_id of
                  None \<Rightarrow> False
                | Some i \<Rightarrow> i \<noteq> root_id t \<and> is_coherent t i) })"

partial_function (option) high_qc_loop ::
  "('s, 'e) crypto \<Rightarrow> ('s, 'e) block_tree \<Rightarrow> block_id list \<Rightarrow> 's quorum_certificate option \<Rightarrow>
   's quorum_certificate option option" where
  "high_qc_loop C t queue high_commit_qc =
     (case queue of
        [] \<Rightarrow> Some high_commit_qc
      | bid # rest \<Rightarrow>
          (case entry_of t bid of
             None \<Rightarrow> None
           | Some e \<Rightarrow>
               (if \<exists>high. high_commit_qc = Some high \<and> qc_round (h_qc (b_header (te_block e))) \<le> qc_round high
                then high_qc_loop C t (rest @ te_children e) high_commit_qc
                else
                  (case committable C t (h_qc (b_header (te_block e))) of
                     None \<Rightarrow> None
                   | Some c \<Rightarrow>
                       high_qc_loop C t (rest @ te_children e)
                         (if c then Some (h_qc (b_header (te_block e))) else high_commit_qc)))))"

definition get_high_committable_qc ::
  "('s, 'e) crypto \<Rightarrow> ('s, 'e) block_tree \<Rightarrow> 's quorum_certificate option panics" where
  "get_high_committable_qc C t = high_qc_loop C t (blk_root_children t) None"

text \<open>The range of blocks missing between a QC and the root.\<close>

partial_function (option) fill_path_loop ::
  "('s, 'e) block_tree \<Rightarrow> block_id \<Rightarrow> seq_num \<Rightarrow> block_range option option" where
  "fill_path_loop t maybe_unknown_bid num_blocks =
     (case entry_of t maybe_unknown_bid of
        None \<Rightarrow> Some (Some \<lparr>br_last_block_id = maybe_unknown_bid, br_num_blocks = num_blocks\<rparr>)
      | Some e \<Rightarrow>
          (if b_parent_id (te_block e) = root_id t then Some None
           else
             (case seq_num_sub (h_seq_num (b_header (te_block e))) (ri_seq_num (blk_root t)) of
                None \<Rightarrow> None
              | Some d \<Rightarrow> fill_path_loop t (b_parent_id (te_block e)) (max d 2 - 1))))"

definition maybe_fill_path_to_root ::
  "('s, 'e) block_tree \<Rightarrow> 's quorum_certificate \<Rightarrow> block_range option panics" where
  "maybe_fill_path_to_root t qc =
     (if qc_round qc \<le> ri_round (blk_root t) \<or> root_id t = qc_block_id qc then Some None
      else fill_path_loop t (qc_block_id qc) 1)"

definition get_seq_num_of_qc :: "('s, 'e) block_tree \<Rightarrow> 's quorum_certificate \<Rightarrow> seq_num option" where
  "get_seq_num_of_qc t qc =
     (if root_id t = qc_block_id qc then Some (ri_seq_num (blk_root t))
      else map_option (\<lambda>e. h_seq_num (b_header (te_block e))) (entry_of t (qc_block_id qc)))"

definition get_timestamp_of_qc :: "('s, 'e) block_tree \<Rightarrow> 's quorum_certificate \<Rightarrow> 128 word option" where
  "get_timestamp_of_qc t qc =
     (if root_id t = qc_block_id qc then Some (ri_timestamp_ns (blk_root t))
      else map_option (\<lambda>e. h_timestamp_ns (b_header (te_block e))) (entry_of t (qc_block_id qc)))"

definition get_block_round_of_qc :: "('s, 'e) block_tree \<Rightarrow> 's quorum_certificate \<Rightarrow> round option" where
  "get_block_round_of_qc t qc =
     (if root_id t = qc_block_id qc then Some (ri_round (blk_root t))
      else map_option (\<lambda>e. b_round (te_block e)) (entry_of t (qc_block_id qc)))"

definition get_block :: "('s, 'e) block_tree \<Rightarrow> block_id \<Rightarrow> ('s, 'e) consensus_full_block option" where
  "get_block t i = map_option te_block (entry_of t i)"

partial_function (option) parent_chain_loop ::
  "('s, 'e) block_tree \<Rightarrow> block_id \<Rightarrow> ('s, 'e) consensus_full_block list \<Rightarrow>
   ('s, 'e) consensus_full_block list option" where
  "parent_chain_loop t i chain =
     (case entry_of t i of
        None \<Rightarrow> Some chain
      | Some e \<Rightarrow> parent_chain_loop t (b_parent_id (te_block e)) (te_block e # chain))"

definition get_parent_block_chain ::
  "('s, 'e) block_tree \<Rightarrow> block_id \<Rightarrow> ('s, 'e) consensus_full_block list panics" where
  "get_parent_block_chain t i = parent_chain_loop t i []"

section \<open>Invariant\<close>

type_synonym ('s, 'e) entries = "block_id \<Rightarrow> ('s, 'e) block_tree_entry option"

text \<open>Entries are stored under their ids and list their children in the tree; the root is not one of them.\<close>

definition tree_wf :: "('s, 'e) crypto \<Rightarrow> ('s, 'e) block_tree \<Rightarrow> bool" where
  "tree_wf C t \<longleftrightarrow>
     hm_wf (tr_tree (blk_tree t)) \<and>
     (\<forall>i e. entry_of t i = Some e \<longrightarrow>
        b_id C (te_block e) = i \<and>
        set (te_children e) = {j. \<exists>e'. entry_of t j = Some e' \<and> b_parent_id (te_block e') = i}) \<and>
     set (blk_root_children t) = {j. \<exists>e. entry_of t j = Some e \<and> b_parent_id (te_block e) = root_id t} \<and>
     entry_of t (root_id t) = None"

text \<open>A QC is formed in the round of its block or later, and a block proposed after its QC.\<close>

definition tree_ordered :: "('s, 'e) block_tree \<Rightarrow> bool" where
  "tree_ordered t \<longleftrightarrow>
     (\<forall>i e. entry_of t i = Some e \<longrightarrow>
        b_parent_round (te_block e) < b_round (te_block e) \<and>
        ri_round (blk_root t) < b_round (te_block e) \<and>
        (b_parent_id (te_block e) = root_id t \<longrightarrow> ri_round (blk_root t) \<le> b_parent_round (te_block e)) \<and>
        (\<forall>p. entry_of t (b_parent_id (te_block e)) = Some p \<longrightarrow> b_round (te_block p) \<le> b_parent_round (te_block e)))"

text \<open>The payload index holds exactly the bodies of the blocks in the tree.\<close>

definition payloads_wf :: "('s, 'e) tree \<Rightarrow> bool" where
  "payloads_wf tr \<longleftrightarrow>
     hm_wf (tr_payloads tr) \<and>
     (\<forall>i e. map_of (tr_tree tr) i = Some e \<longrightarrow>
        (\<exists>index. map_of (tr_payloads tr) (b_body_id (te_block e)) = Some index \<and> i \<in> bi_active_blocks index)) \<and>
     (\<forall>p index. map_of (tr_payloads tr) p = Some index \<longrightarrow>
        bi_active_blocks index \<noteq> {} \<and>
        (\<forall>i \<in> bi_active_blocks index. \<exists>e. map_of (tr_tree tr) i = Some e \<and> b_body_id (te_block e) = p))"

text \<open>A coherent block extends the root or a coherent block.\<close>

definition coherent_closed :: "('s, 'e) block_tree \<Rightarrow> bool" where
  "coherent_closed t \<longleftrightarrow>
     (\<forall>i e. entry_of t i = Some e \<longrightarrow> te_coherent e \<longrightarrow> is_coherent t (b_parent_id (te_block e)))"

definition block_tree_wf :: "('s, 'e) crypto \<Rightarrow> ('s, 'e) block_tree \<Rightarrow> bool" where
  "block_tree_wf C t \<longleftrightarrow> tree_wf C t \<and> tree_ordered t \<and> payloads_wf (blk_tree t) \<and> coherent_closed t"

lemma block_tree_wfD:
  assumes "block_tree_wf C t"
  shows "tree_wf C t" and "tree_ordered t" and "payloads_wf (blk_tree t)" and "coherent_closed t"
    and "hm_wf (tr_tree (blk_tree t))"
  using assms by (simp_all add: block_tree_wf_def tree_wf_def)

lemma tree_orderedD:
  assumes "tree_ordered t" and "entry_of t i = Some e"
  shows "b_parent_round (te_block e) < b_round (te_block e)" and "ri_round (blk_root t) < b_round (te_block e)"
    and "entry_of t (b_parent_id (te_block e)) = Some p \<Longrightarrow> b_round (te_block p) < b_round (te_block e)"
proof -
  have o: "b_parent_round (te_block e) < b_round (te_block e) \<and> ri_round (blk_root t) < b_round (te_block e) \<and>
      (\<forall>p. entry_of t (b_parent_id (te_block e)) = Some p \<longrightarrow> b_round (te_block p) \<le> b_parent_round (te_block e))"
    using assms unfolding tree_ordered_def by blast
  then show "b_parent_round (te_block e) < b_round (te_block e)" "ri_round (blk_root t) < b_round (te_block e)"
    by simp_all
  show "b_round (te_block p) < b_round (te_block e)" if "entry_of t (b_parent_id (te_block e)) = Some p"
    using o that by (meson le_less_trans)
qed

section \<open>Removal\<close>

lemma payloads_wf_remove:
  assumes p: "payloads_wf tr" and e: "map_of (tr_tree tr) i = Some e"
    and index: "map_of (tr_payloads tr) (b_body_id (te_block e)) = Some index"
    and tr': "tr_tree tr' = AList.delete i (tr_tree tr)"
      "tr_payloads tr' = (if bi_active_blocks index - {i} = {} then AList.delete (b_body_id (te_block e)) (tr_payloads tr)
         else AList.update (b_body_id (te_block e)) (index\<lparr>bi_active_blocks := bi_active_blocks index - {i}\<rparr>)
                (tr_payloads tr))"
  shows "payloads_wf tr'"
proof -
  let ?b = "b_body_id (te_block e)"
  have P: "hm_wf (tr_payloads tr)"
    and ent: "\<And>j e'. map_of (tr_tree tr) j = Some e' \<Longrightarrow>
      \<exists>ix. map_of (tr_payloads tr) (b_body_id (te_block e')) = Some ix \<and> j \<in> bi_active_blocks ix"
    and idx: "\<And>q ix. map_of (tr_payloads tr) q = Some ix \<Longrightarrow> bi_active_blocks ix \<noteq> {}"
    and act: "\<And>q ix j. map_of (tr_payloads tr) q = Some ix \<Longrightarrow> j \<in> bi_active_blocks ix \<Longrightarrow>
      \<exists>e'. map_of (tr_tree tr) j = Some e' \<and> b_body_id (te_block e') = q"
    using p unfolding payloads_wf_def by blast+
  have m: "map_of (tr_tree tr') = (map_of (tr_tree tr))(i := None)"
    by (simp add: tr' delete_conv')
  have pm: "map_of (tr_payloads tr') = (map_of (tr_payloads tr))
      (?b := (if bi_active_blocks index - {i} = {} then None
              else Some (index\<lparr>bi_active_blocks := bi_active_blocks index - {i}\<rparr>)))"
    by (simp add: tr' delete_conv' update_conv')
  have wf: "hm_wf (tr_payloads tr')"
    using P by (simp add: tr' hm.wf_ins hm.wf_del)
  have "\<exists>ix. map_of (tr_payloads tr') (b_body_id (te_block e')) = Some ix \<and> j \<in> bi_active_blocks ix"
    if "map_of (tr_tree tr') j = Some e'" for j e'
  proof -
    have j: "j \<noteq> i" "map_of (tr_tree tr) j = Some e'"
      using that by (auto simp: m split: if_splits)
    then obtain ix where ix: "map_of (tr_payloads tr) (b_body_id (te_block e')) = Some ix" "j \<in> bi_active_blocks ix"
      using ent by blast
    then show ?thesis
      using j(1) index by (auto simp: pm)
  qed
  moreover have "bi_active_blocks ix \<noteq> {}" if "map_of (tr_payloads tr') q = Some ix" for q ix
    using that idx by (auto simp: pm split: if_splits)
  moreover have "\<exists>e'. map_of (tr_tree tr') j = Some e' \<and> b_body_id (te_block e') = q"
    if x: "map_of (tr_payloads tr') q = Some ix" "j \<in> bi_active_blocks ix" for q ix j
  proof (cases "q = ?b")
    case True
    then have "j \<in> bi_active_blocks index" "j \<noteq> i"
      using x by (auto simp: pm split: if_splits)
    then show ?thesis
      using act [OF index] True by (auto simp: m)
  next
    case False
    then have "map_of (tr_payloads tr) q = Some ix"
      using x(1) by (simp add: pm)
    then obtain e' where e': "map_of (tr_tree tr) j = Some e'" "b_body_id (te_block e') = q"
      using act x(2) by blast
    then have "j \<noteq> i"
      using e False by auto
    then show ?thesis
      using e' by (simp add: m)
  qed
  ultimately show ?thesis
    unfolding payloads_wf_def using wf by blast
qed

lemma tree_remove_spec:
  assumes "payloads_wf tr" and "hm_wf (tr_tree tr)"
  shows "\<exists>tr'. tree_remove tr i = Some (tr', map_of (tr_tree tr) i) \<and>
    map_of (tr_tree tr') = (map_of (tr_tree tr))(i := None) \<and> payloads_wf tr' \<and> hm_wf (tr_tree tr')"
proof (cases "map_of (tr_tree tr) i")
  case None
  then show ?thesis
    using assms by (auto simp: tree_remove_def)
next
  case (Some e)
  then obtain index where ix: "map_of (tr_payloads tr) (b_body_id (te_block e)) = Some index" "i \<in> bi_active_blocks index"
    using assms(1) unfolding payloads_wf_def by blast
  let ?tr' = "\<lparr>tr_tree = AList.delete i (tr_tree tr),
     tr_payloads = (if bi_active_blocks index - {i} = {} then AList.delete (b_body_id (te_block e)) (tr_payloads tr)
         else AList.update (b_body_id (te_block e)) (index\<lparr>bi_active_blocks := bi_active_blocks index - {i}\<rparr>)
                (tr_payloads tr))\<rparr>"
  have "tree_remove tr i = Some (?tr', Some e)"
    using Some ix by (simp add: tree_remove_def Let_def)
  moreover have "payloads_wf ?tr'"
    by (rule payloads_wf_remove [OF assms(1) Some ix(1)]) simp_all
  ultimately show ?thesis
    using Some assms(2) by (auto simp: delete_conv' hm.wf_del)
qed

lemma tree_remove_all_spec:
  assumes "payloads_wf tr" and "hm_wf (tr_tree tr)"
  shows "\<exists>tr'. tree_remove_all tr is = Some tr' \<and>
    map_of (tr_tree tr') = map_of (tr_tree tr) |` (- set is) \<and> payloads_wf tr' \<and> hm_wf (tr_tree tr')"
  using assms
proof (induction "is" arbitrary: tr)
  case (Cons i rest)
  obtain tr1 where t: "tree_remove tr i = Some (tr1, map_of (tr_tree tr) i)"
    "map_of (tr_tree tr1) = (map_of (tr_tree tr))(i := None)" "payloads_wf tr1" "hm_wf (tr_tree tr1)"
    using tree_remove_spec [OF Cons.prems] by blast
  obtain tr' where "tree_remove_all tr1 rest = Some tr'"
    "map_of (tr_tree tr') = map_of (tr_tree tr1) |` (- set rest)" "payloads_wf tr'" "hm_wf (tr_tree tr')"
    using Cons.IH [OF t(3,4)] by blast
  then show ?case
    using t(1,2) by (auto simp: restrict_map_def fun_eq_iff)
qed (simp add: restrict_map_def)

section \<open>Paths to the root\<close>

text \<open>The entries from below the root to a block, with their ids, lowest first.\<close>

inductive root_path :: "('s, 'e) entries \<Rightarrow> block_id \<Rightarrow> block_id \<Rightarrow> (block_id \<times> ('s, 'e) block_tree_entry) list \<Rightarrow> bool"
  for m root where
  path_base: "\<lbrakk>m i = Some e; b_parent_id (te_block e) = root\<rbrakk> \<Longrightarrow> root_path m root i [(i, e)]"
| path_step: "\<lbrakk>m i = Some e; b_parent_id (te_block e) \<noteq> root; root_path m root (b_parent_id (te_block e)) ps\<rbrakk> \<Longrightarrow>
    root_path m root i (ps @ [(i, e)])"

inductive_cases root_pathE: "root_path m root i ps"

abbreviation path_blocks :: "(block_id \<times> ('s, 'e) block_tree_entry) list \<Rightarrow> ('s, 'e) consensus_full_block list" where
  "path_blocks ps \<equiv> map (te_block \<circ> snd) ps"

lemma root_path_entries: "root_path m root i ps \<Longrightarrow> (j, e) \<in> set ps \<Longrightarrow> m j = Some e"
  by (induction rule: root_path.induct) auto

lemma root_path_last: "root_path m root i ps \<Longrightarrow> ps \<noteq> [] \<and> fst (last ps) = i \<and> m i = Some (snd (last ps))"
  by (cases rule: root_path.cases) auto

lemma root_path_unique: "root_path m root i ps \<Longrightarrow> root_path m root i ps' \<Longrightarrow> ps = ps'"
proof (induction arbitrary: ps' rule: root_path.induct)
  case (path_base i e)
  then show ?case
    by (auto elim: root_pathE)
next
  case (path_step i e ps)
  show ?case
    using path_step.prems
  proof (rule root_pathE)
    fix e' qs
    assume "ps' = qs @ [(i, e')]" "m i = Some e'" "root_path m root (b_parent_id (te_block e')) qs"
    then show ?thesis
      using path_step by auto
  qed (use path_step.hyps in auto)
qed

lemma root_path_upd:
  assumes "root_path m root i ps" and "j \<notin> fst ` set ps"
  shows "root_path (m(j := x)) root i ps"
  using assms by (induction rule: root_path.induct) (auto intro: root_path.intros)

text \<open>Rounds grow along a path, so every block below the last one has a lower round.\<close>

lemma root_path_rounds:
  assumes "tree_ordered t" and "root_path (entry_of t) (root_id t) i ps" and "entry_of t i = Some e"
  shows "\<forall>(j, x) \<in> set (butlast ps). b_round (te_block x) < b_round (te_block e)"
  using assms(2,3)
proof (induction arbitrary: e rule: root_path.induct)
  case (path_step i e' ps)
  obtain p where p: "entry_of t (b_parent_id (te_block e')) = Some p" "ps \<noteq> []" "snd (last ps) = p"
    using root_path_last [OF path_step.hyps(3)] by auto
  have lt: "b_round (te_block p) < b_round (te_block e')"
    using tree_orderedD(3) [OF assms(1) path_step.hyps(1) p(1)] .
  have all: "\<forall>(j, x) \<in> set ps. b_round (te_block x) \<le> b_round (te_block p)"
  proof -
    have "set ps = set (butlast ps) \<union> {last ps}"
      using p(2) by (metis Un_insert_right append_butlast_last_id list.simps(15) set_append sup_bot.right_neutral list.set(1))
    then show ?thesis
      using path_step.IH [OF p(1)] p(3) by (auto simp: less_imp_le)
  qed
  have "e = e'"
    using path_step.hyps(1) path_step.prems by simp
  then show ?case
    using lt all by (auto dest: order_le_less_trans)
qed simp

lemma root_path_distinct:
  assumes "tree_ordered t" and "root_path (entry_of t) (root_id t) i ps"
  shows "i \<notin> fst ` set (butlast ps)"
proof
  assume "i \<in> fst ` set (butlast ps)"
  then obtain x where x: "(i, x) \<in> set (butlast ps)"
    by auto
  then have e: "entry_of t i = Some x"
    using root_path_entries [OF assms(2)] by (meson in_set_butlastD)
  show False
    using bspec [OF root_path_rounds [OF assms e] x] by simp
qed

text \<open>The walk to the root ends and finds the path if there is one.\<close>

lemma path_loop_ends:
  assumes "tree_ordered t"
  shows "(\<exists>ps. root_path (entry_of t) (root_id t) i ps \<and> path_loop t i acc = Some (Some (path_blocks ps @ acc))) \<or>
    (\<forall>ps. \<not> root_path (entry_of t) (root_id t) i ps) \<and> path_loop t i acc = Some None"
proof (induction "case entry_of t i of None \<Rightarrow> 0 | Some e \<Rightarrow> Suc (b_round (te_block e))" arbitrary: i acc
    rule: less_induct)
  case less
  show ?case
  proof (cases "entry_of t i")
    case None
    then show ?thesis
      by (subst path_loop.simps) (auto elim: root_pathE)
  next
    case (Some e)
    show ?thesis
    proof (cases "b_parent_id (te_block e) = root_id t")
      case True
      then show ?thesis
        using Some by (subst (1 2) path_loop.simps) (auto intro!: exI [of _ "[(i, e)]"] path_base)
    next
      case False
      let ?p = "b_parent_id (te_block e)"
      have "(\<exists>ps. root_path (entry_of t) (root_id t) ?p ps \<and>
            path_loop t ?p (te_block e # acc) = Some (Some (path_blocks ps @ te_block e # acc))) \<or>
          (\<forall>ps. \<not> root_path (entry_of t) (root_id t) ?p ps) \<and> path_loop t ?p (te_block e # acc) = Some None"
        by (rule less.hyps) (use tree_orderedD(3) [OF assms Some] Some in \<open>auto split: option.splits\<close>)
      moreover have "path_loop t i acc = path_loop t ?p (te_block e # acc)"
        using Some False by (subst path_loop.simps) simp
      ultimately show ?thesis
        using Some False by (auto intro: path_step elim: root_pathE)
    qed
  qed
qed

text \<open>Coherent blocks have a path of coherent blocks.\<close>

lemma coherent_path:
  assumes "tree_ordered t" and "coherent_closed t" and "entry_of t i = Some e" and "te_coherent e"
  shows "\<exists>ps. root_path (entry_of t) (root_id t) i ps \<and> (\<forall>(j, x) \<in> set ps. te_coherent x)"
  using assms(3,4)
proof (induction "b_round (te_block e)" arbitrary: i e rule: less_induct)
  case less
  show ?case
  proof (cases "b_parent_id (te_block e) = root_id t")
    case True
    then show ?thesis
      using less.prems by (intro exI [of _ "[(i, e)]"]) (auto intro: path_base)
  next
    case False
    have "is_coherent t (b_parent_id (te_block e))"
      using assms(2) less.prems unfolding coherent_closed_def by blast
    then obtain p where p: "entry_of t (b_parent_id (te_block e)) = Some p" "te_coherent p"
      using False by (auto simp: is_coherent_def split: option.splits)
    then obtain ps where "root_path (entry_of t) (root_id t) (b_parent_id (te_block e)) ps"
      "\<forall>(j, x) \<in> set ps. te_coherent x"
      using less.hyps [OF tree_orderedD(3) [OF assms(1) less.prems(1) p(1)] p] by blast
    then show ?thesis
      using less.prems False by (intro exI [of _ "ps @ [(i, e)]"]) (auto intro: path_step)
  qed
qed

lemma root_path_parent_rounds:
  assumes "tree_ordered t" and "root_path (entry_of t) (root_id t) i ps" and "entry_of t i = Some e"
    and "(j, x) \<in> set (butlast ps)"
  shows "b_round (te_block x) \<le> b_parent_round (te_block e)"
  using assms(2)
proof (rule root_pathE)
  fix e' qs
  assume ps: "ps = qs @ [(i, e')]" "entry_of t i = Some e'"
    and qs: "root_path (entry_of t) (root_id t) (b_parent_id (te_block e')) qs"
  obtain p where p: "entry_of t (b_parent_id (te_block e')) = Some p" "qs \<noteq> []" "snd (last qs) = p"
    using root_path_last [OF qs] by auto
  have "b_round (te_block x) \<le> b_round (te_block p)"
  proof (cases "(j, x) = last qs")
    case True
    then show ?thesis
      using p(3) by (metis order_refl snd_conv)
  next
    case False
    have "(j, x) \<in> set (butlast qs @ [last qs])"
      using assms(4) ps(1) p(2) by (simp add: butlast_append)
    with False have "(j, x) \<in> set (butlast qs)"
      by auto
    then show ?thesis
      using root_path_rounds [OF assms(1) qs p(1)] by fastforce
  qed
  moreover have "b_round (te_block p) \<le> b_parent_round (te_block e')"
    using assms(1) ps(2) p(1) unfolding tree_ordered_def by blast
  ultimately show ?thesis
    using ps(2) assms(3) by simp
qed (use assms(4) in auto)

lemma root_path_distinct_ids:
  assumes "tree_ordered t" and "root_path (entry_of t) (root_id t) i ps"
  shows "distinct (map fst ps)"
  using assms(2)
proof (induction rule: root_path.induct)
  case (path_step i e ps)
  have "root_path (entry_of t) (root_id t) i (ps @ [(i, e)])"
    using path_step.hyps by (rule root_path.path_step)
  from root_path_distinct [OF assms(1) this] show ?case
    using path_step.IH by simp
qed simp

section \<open>Pruning\<close>

lemma prune_loop_path:
  assumes "root_path m root i ps" and "\<forall>(j, x) \<in> set ps. te_coherent x" and "distinct (map fst ps)"
    and "payloads_wf tr" and "hm_wf (tr_tree tr)" and "\<forall>(j, x) \<in> set (butlast ps). map_of (tr_tree tr) j = Some x"
    and "m i = Some e"
  shows "\<exists>tr'. prune_loop root tr e commit = Some (tr', path_blocks ps @ commit) \<and>
    map_of (tr_tree tr') = map_of (tr_tree tr) |` (- fst ` set (butlast ps)) \<and> payloads_wf tr' \<and> hm_wf (tr_tree tr')"
  using assms
proof (induction arbitrary: tr e commit rule: root_path.induct)
  case (path_base i e')
  then have "prune_loop root tr e commit = Some (tr, path_blocks [(i, e')] @ commit)"
    by (subst prune_loop.simps) simp
  then show ?case
    using path_base by (auto simp: restrict_map_def)
next
  case (path_step i e' ps)
  let ?p = "b_parent_id (te_block e')"
  have e: "e = e'" "te_coherent e'"
    using path_step.prems(1,6) path_step.hyps(1) by auto
  obtain qs p where p: "m ?p = Some p" "ps = qs @ [(?p, p)]"
    using root_path_last [OF path_step.hyps(3)] by (metis append_butlast_last_id prod.collapse)
  have in_tr: "map_of (tr_tree tr) ?p = Some p" "\<forall>(j, x) \<in> set qs. map_of (tr_tree tr) j = Some x"
    using path_step.prems(5) by (auto simp: p(2) butlast_append)
  then obtain tr1 where r: "tree_remove tr ?p = Some (tr1, Some p)"
    "map_of (tr_tree tr1) = (map_of (tr_tree tr))(?p := None)" "payloads_wf tr1" "hm_wf (tr_tree tr1)"
    using tree_remove_spec [OF path_step.prems(3,4), of ?p] by auto
  have d: "?p \<notin> fst ` set qs" "distinct (map fst ps)"
    using path_step.prems(2) by (auto simp: p(2))
  have "\<forall>(j, x) \<in> set (butlast ps). map_of (tr_tree tr1) j = Some x"
    using in_tr(2) d(1) by (force simp: p(2) r(2))
  moreover have "\<forall>(j, x) \<in> set ps. te_coherent x"
    using path_step.prems(1) by simp
  ultimately obtain tr' where l: "prune_loop root tr1 p (te_block e' # commit) =
      Some (tr', path_blocks ps @ te_block e' # commit)"
    "map_of (tr_tree tr') = map_of (tr_tree tr1) |` (- fst ` set (butlast ps))" "payloads_wf tr'" "hm_wf (tr_tree tr')"
    using path_step.IH [OF _ d(2) r(3,4) _ p(1)] by blast
  have "prune_loop root tr e commit = Some (tr', path_blocks (ps @ [(i, e')]) @ commit)"
    using e path_step.hyps(2) r(1) l(1) by (subst prune_loop.simps) simp
  moreover have "map_of (tr_tree tr') = map_of (tr_tree tr) |` (- fst ` set ps)"
    by (auto simp: l(2) r(2) p(2) restrict_map_def fun_eq_iff)
  ultimately show ?case
    using l(3,4) by simp
qed

text \<open>What pruning does to a well-formed tree, without any assumption on forks.\<close>

lemma prune_result:
  assumes wf: "block_tree_wf C t" and n: "entry_of t new_root = Some n" "te_coherent n" "new_root \<noteq> root_id t"
  shows "\<exists>t' ps. prune C t new_root = Some (t', path_blocks ps) \<and>
    root_path (entry_of t) (root_id t) new_root ps \<and>
    (\<forall>i e. entry_of t' i = Some e \<longleftrightarrow> entry_of t i = Some e \<and> b_round (te_block n) \<le> b_parent_round (te_block e)) \<and>
    blk_root t' = \<lparr>ri_round = b_round (te_block n), ri_seq_num = h_seq_num (b_header (te_block n)),
      ri_epoch = h_epoch (b_header (te_block n)), ri_block_id = new_root,
      ri_timestamp_ns = h_timestamp_ns (b_header (te_block n))\<rparr> \<and>
    blk_root_children t' = te_children n \<and> payloads_wf (blk_tree t') \<and> hm_wf (tr_tree (blk_tree t'))"
proof -
  note W = block_tree_wfD [OF wf]
  obtain ps where ps: "root_path (entry_of t) (root_id t) new_root ps" "\<forall>(j, x) \<in> set ps. te_coherent x"
    using coherent_path [OF W(2,4) n(1,2)] by blast
  obtain tr1 where r: "tree_remove (blk_tree t) new_root = Some (tr1, Some n)"
    "map_of (tr_tree tr1) = (entry_of t)(new_root := None)" "payloads_wf tr1" "hm_wf (tr_tree tr1)"
    using tree_remove_spec [OF W(3,5), of new_root] n(1) by auto
  have below: "new_root \<notin> fst ` set (butlast ps)"
    by (rule root_path_distinct [OF W(2) ps(1)])
  have "\<forall>(j, x) \<in> set (butlast ps). map_of (tr_tree tr1) j = Some x"
    using below root_path_entries [OF ps(1)] by (force simp: r(2) dest: in_set_butlastD)
  then obtain tr2 where l: "prune_loop (root_id t) tr1 n [] = Some (tr2, path_blocks ps)"
    "map_of (tr_tree tr2) = map_of (tr_tree tr1) |` (- fst ` set (butlast ps))" "payloads_wf tr2" "hm_wf (tr_tree tr2)"
    using prune_loop_path [OF ps root_path_distinct_ids [OF W(2) ps(1)] r(3,4) _ n(1), of "[]"] by auto
  let ?del = "map fst (filter (\<lambda>(_, e). b_parent_round (te_block e) < b_round (te_block n)) (tr_tree tr2))"
  obtain tr3 where d: "tree_remove_all tr2 ?del = Some tr3" "map_of (tr_tree tr3) = map_of (tr_tree tr2) |` (- set ?del)"
    "payloads_wf tr3" "hm_wf (tr_tree tr3)"
    using tree_remove_all_spec [OF l(3,4)] by blast
  have id: "b_id C (te_block n) = new_root"
    using W(1) n(1) unfolding tree_wf_def by blast
  have entries: "map_of (tr_tree tr3) i = Some e \<longleftrightarrow>
      entry_of t i = Some e \<and> b_round (te_block n) \<le> b_parent_round (te_block e)" for i e
  proof -
    have tr2: "map_of (tr_tree tr2) i = Some e \<longleftrightarrow> entry_of t i = Some e \<and> i \<notin> insert new_root (fst ` set (butlast ps))"
      by (auto simp: l(2) r(2) restrict_map_def)
    have del: "i \<in> set ?del \<longleftrightarrow> b_parent_round (te_block e) < b_round (te_block n)"
      if "map_of (tr_tree tr2) i = Some e"
    proof -
      have "(i, x) \<in> set (tr_tree tr2) \<longleftrightarrow> x = e" for x
        using that l(4) map_of_eq_Some_iff [of "tr_tree tr2" i x] by (auto simp: hm_wf_def)
      then show ?thesis
        by force
    qed
    have off: "i \<notin> insert new_root (fst ` set (butlast ps))"
      if e: "entry_of t i = Some e" "b_round (te_block n) \<le> b_parent_round (te_block e)"
    proof
      assume "i \<in> insert new_root (fst ` set (butlast ps))"
      then have "b_round (te_block e) \<le> b_round (te_block n)"
        using root_path_rounds [OF W(2) ps(1) n(1)] root_path_entries [OF ps(1)] e(1) n(1)
        by (force dest: in_set_butlastD)
      then show False
        using e(2) tree_orderedD(1) [OF W(2) e(1)] by simp
    qed
    show ?thesis
    proof (cases "map_of (tr_tree tr2) i = Some e")
      case True
      have "map_of (tr_tree tr3) i = Some e \<longleftrightarrow> i \<notin> set ?del"
        unfolding d(2) restrict_map_def using True by simp
      then show ?thesis
        using del [OF True] tr2 True by (simp add: not_less)
    next
      case False
      then have "map_of (tr_tree tr3) i \<noteq> Some e"
        unfolding d(2) restrict_map_def by simp
      then show ?thesis
        using False tr2 off by blast
    qed
  qed
  let ?t' = "\<lparr>blk_root = \<lparr>ri_round = b_round (te_block n), ri_seq_num = h_seq_num (b_header (te_block n)),
      ri_epoch = h_epoch (b_header (te_block n)), ri_block_id = new_root,
      ri_timestamp_ns = h_timestamp_ns (b_header (te_block n))\<rparr>, blk_root_children = te_children n, blk_tree = tr3\<rparr>"
  have "prune C t new_root = Some (?t', path_blocks ps)"
    using n r(1) l(1) d(1) id by (simp add: prune_def is_coherent_def Let_def)
  then show ?thesis
    using ps(1) entries d(3,4) by (intro exI [of _ ?t'] exI [of _ ps]) simp
qed

text \<open>
  Consensus safety, as the tree sees it: a block whose QC was formed at or after the round of the
  block to commit, and which is connected to the root, extends the block to commit.
\<close>

definition extends_commit :: "('s, 'e) block_tree \<Rightarrow> block_id \<Rightarrow> bool" where
  "extends_commit t new_root \<longleftrightarrow>
     (\<forall>n i e ps. entry_of t new_root = Some n \<longrightarrow> entry_of t i = Some e \<longrightarrow>
        root_path (entry_of t) (root_id t) i ps \<longrightarrow> b_round (te_block n) \<le> b_parent_round (te_block e) \<longrightarrow>
        new_root \<in> fst ` set ps)"

lemma prune_coherent_closed:
  assumes wf: "block_tree_wf C t" and n: "entry_of t new_root = Some n" and fork: "extends_commit t new_root"
    and entries: "\<And>i e. entry_of t' i = Some e \<longleftrightarrow> entry_of t i = Some e \<and> b_round (te_block n) \<le> b_parent_round (te_block e)"
    and root: "root_id t' = new_root"
  shows "coherent_closed t'"
  unfolding coherent_closed_def
proof (intro allI impI)
  fix i e
  assume e': "entry_of t' i = Some e" and coh: "te_coherent e"
  note W = block_tree_wfD [OF wf]
  have e: "entry_of t i = Some e" "b_round (te_block n) \<le> b_parent_round (te_block e)"
    using e' entries by simp_all
  obtain ps where ps: "root_path (entry_of t) (root_id t) i ps" "\<forall>(j, x) \<in> set ps. te_coherent x"
    using coherent_path [OF W(2,4) e(1) coh] by blast
  have on: "new_root \<in> fst ` set ps"
    using fork n e ps(1) unfolding extends_commit_def by blast
  have "i \<noteq> new_root"
    using e n tree_orderedD(1) [OF W(2) n] by auto
  show "is_coherent t' (b_parent_id (te_block e))"
    using ps(1)
  proof (rule root_pathE)
    fix x qs
    assume p: "ps = qs @ [(i, x)]" "entry_of t i = Some x"
      and qs: "root_path (entry_of t) (root_id t) (b_parent_id (te_block x)) qs"
    let ?p = "b_parent_id (te_block e)"
    have x: "x = e"
      using p(2) e(1) by simp
    have "fst (last qs) = ?p" "entry_of t ?p = Some (snd (last qs))" "qs \<noteq> []"
      using root_path_last [OF qs] x by simp_all
    then obtain qs' y where q: "qs = qs' @ [(?p, y)]" and y: "entry_of t ?p = Some y"
      by (cases qs rule: rev_cases) auto
    have coh_y: "te_coherent y"
      using ps(2) by (simp add: p(1) q)
    show ?thesis
    proof (cases "?p = new_root")
      case False
      have "new_root \<in> fst ` set qs'"
        using on \<open>i \<noteq> new_root\<close> False by (simp add: p(1) q)
      then obtain z where z: "(new_root, z) \<in> set (butlast qs)"
        by (auto simp: q)
      then have "z = n"
        using root_path_entries [OF qs in_set_butlastD [OF z]] n by simp
      then have "b_round (te_block n) \<le> b_parent_round (te_block y)"
        using root_path_parent_rounds [OF W(2) qs, of y] y z x by simp
      then have "entry_of t' ?p = Some y"
        using entries y by simp
      then show ?thesis
        using coh_y by (simp add: is_coherent_def)
    qed (simp add: is_coherent_def root)
  qed (use on \<open>i \<noteq> new_root\<close> in auto)
qed

lemma prune_tree_wf:
  assumes wf: "block_tree_wf C t" and n: "entry_of t new_root = Some n"
    and entries: "\<And>i e. entry_of t' i = Some e \<longleftrightarrow> entry_of t i = Some e \<and> b_round (te_block n) \<le> b_parent_round (te_block e)"
    and root: "blk_root t' = r" "ri_block_id r = new_root" "ri_round r = b_round (te_block n)"
      "blk_root_children t' = te_children n" "hm_wf (tr_tree (blk_tree t'))"
  shows "tree_wf C t' \<and> tree_ordered t'"
proof -
  note W = block_tree_wfD [OF wf]
  have ord: "b_round (te_block p) \<le> b_parent_round (te_block e)"
    if "entry_of t j = Some e" "entry_of t (b_parent_id (te_block e)) = Some p" for j e p
    using W(2) that unfolding tree_ordered_def by blast
  have children: "{j. \<exists>e'. entry_of t' j = Some e' \<and> b_parent_id (te_block e') = i} =
      {j. \<exists>e'. entry_of t j = Some e' \<and> b_parent_id (te_block e') = i}"
    if e: "entry_of t i = Some e" and r: "b_round (te_block n) \<le> b_round (te_block e)" for i e
    using ord e r entries by (auto, meson le_trans)
  have kids: "set (te_children e) = {j. \<exists>e'. entry_of t j = Some e' \<and> b_parent_id (te_block e') = i}"
    and ids: "b_id C (te_block e) = i" if "entry_of t i = Some e" for i e
    using W(1) that unfolding tree_wf_def by blast+
  have "entry_of t' new_root \<noteq> Some e" for e
    using entries [of new_root e] n tree_orderedD(1) [OF W(2) n] by auto
  then have none: "entry_of t' (root_id t') = None"
    using root(1,2) by (cases "entry_of t' new_root") auto
  have "b_id C (te_block e) = i \<and> set (te_children e) = {j. \<exists>e'. entry_of t' j = Some e' \<and> b_parent_id (te_block e') = i}"
    if e: "entry_of t' i = Some e" for i e
  proof -
    have "entry_of t i = Some e" "b_round (te_block n) \<le> b_parent_round (te_block e)"
      using e entries by simp_all
    then have t: "entry_of t i = Some e" "b_round (te_block n) \<le> b_round (te_block e)"
      using tree_orderedD(1) [OF W(2), of i e] by simp_all
    show ?thesis
      unfolding children [OF t] using kids [OF t(1)] ids [OF t(1)] by simp
  qed
  moreover have "set (blk_root_children t') = {j. \<exists>e. entry_of t' j = Some e \<and> b_parent_id (te_block e) = root_id t'}"
    using kids [OF n] children [OF n] root by simp
  ultimately have "tree_wf C t'"
    unfolding tree_wf_def using root(5) none by blast
  moreover have "tree_ordered t'"
    unfolding tree_ordered_def root(1)
    using entries ord tree_orderedD(1) [OF W(2)] root(2,3) by (auto intro: le_less_trans)
  ultimately show ?thesis ..
qed

text \<open>
  C8. Committing a coherent block keeps the tree's invariant. \<open>prune\<close> does not panic; it returns
  the blocks on the path from the old root to the new one, lowest first; exactly the blocks whose
  parent QC is not older than the new root remain, with the new root as the root; and, as long as
  connected blocks of later QCs extend the committed block (which consensus safety ensures), the
  tree stays well formed: children lists, payload index, round order and the closure of coherency
  towards the root.
\<close>

theorem prune_correct:
  assumes "block_tree_wf C t" and "is_coherent t new_root"
  shows "\<exists>t' blocks. prune C t new_root = Some (t', blocks) \<and> root_id t' = new_root \<and>
    get_blocks_on_path_from_root t new_root = Some (Some blocks) \<and>
    (new_root \<noteq> root_id t \<longrightarrow>
       (\<exists>b. get_block t new_root = Some b \<and> ri_round (blk_root t') = b_round b \<and>
          ri_seq_num (blk_root t') = h_seq_num (b_header b)) \<and>
       (\<forall>i e. entry_of t' i = Some e \<longleftrightarrow> entry_of t i = Some e \<and> ri_round (blk_root t') \<le> b_parent_round (te_block e))) \<and>
    (extends_commit t new_root \<longrightarrow> block_tree_wf C t')"
proof (cases "new_root = root_id t")
  case True
  then show ?thesis
    using assms by (simp add: prune_def get_blocks_on_path_from_root_def)
next
  case False
  note W = block_tree_wfD [OF assms(1)]
  obtain n where n: "entry_of t new_root = Some n" "te_coherent n"
    using assms(2) False by (auto simp: is_coherent_def split: option.splits)
  obtain t' ps where p: "prune C t new_root = Some (t', path_blocks ps)"
      "root_path (entry_of t) (root_id t) new_root ps"
    and entries: "\<And>i e. entry_of t' i = Some e \<longleftrightarrow> entry_of t i = Some e \<and> b_round (te_block n) \<le> b_parent_round (te_block e)"
    and t': "blk_root t' = \<lparr>ri_round = b_round (te_block n), ri_seq_num = h_seq_num (b_header (te_block n)),
      ri_epoch = h_epoch (b_header (te_block n)), ri_block_id = new_root,
      ri_timestamp_ns = h_timestamp_ns (b_header (te_block n))\<rparr>"
      "blk_root_children t' = te_children n" "payloads_wf (blk_tree t')" "hm_wf (tr_tree (blk_tree t'))"
    using prune_result [OF assms(1) n False] by blast
  have path: "get_blocks_on_path_from_root t new_root = Some (Some (path_blocks ps))"
    using path_loop_ends [OF W(2), of new_root "[]"] p(2) False
    by (auto simp: get_blocks_on_path_from_root_def dest: root_path_unique [OF p(2)])
  have "block_tree_wf C t'" if "extends_commit t new_root"
    unfolding block_tree_wf_def
    using prune_tree_wf [OF assms(1) n(1) entries t'(1) _ _ t'(2,4)] t'(3)
      prune_coherent_closed [OF assms(1) n(1) that entries] t'(1) by simp
  then show ?thesis
    using p(1) path entries t'(1) n(1) by (simp add: get_block_def)
qed

end
