(* ===== verification/Block_Tree_Growth.thy ===== *)
theory Block_Tree_Growth
  imports Block_Tree
begin

text \<open>
  Growth of the block tree: insertion, the update of coherency and the search for the highest
  committable QC keep the tree's invariant, return, and compute what they promise. The end of the
  theory is an instance on which the theorems are evaluated.
\<close>

section \<open>Insertion\<close>

text \<open>
  What the certificates of a validated block give about rounds: its QC is older than the block and
  not older than its parent, and the QCs of its children in the tree are not older than it.
\<close>

definition block_ordered :: "('s, 'e) crypto \<Rightarrow> ('s, 'e) block_tree \<Rightarrow> ('s, 'e) consensus_full_block \<Rightarrow> bool" where
  "block_ordered C t b \<longleftrightarrow>
     b_parent_round b < b_round b \<and>
     (b_parent_id b = root_id t \<longrightarrow> ri_round (blk_root t) \<le> b_parent_round b) \<and>
     (\<forall>p. entry_of t (b_parent_id b) = Some p \<longrightarrow> b_round (te_block p) \<le> b_parent_round b) \<and>
     b_parent_id b \<noteq> b_id C b \<and> b_id C b \<noteq> root_id t \<and>
     (\<forall>i e. entry_of t i = Some e \<longrightarrow> b_parent_id (te_block e) = b_id C b \<longrightarrow> b_round b \<le> b_parent_round (te_block e))"

lemma payloads_wf_insert:
  assumes p: "payloads_wf tr" and new: "map_of (tr_tree tr) i = None"
    and m: "\<And>j. j \<noteq> i \<Longrightarrow> map_option te_block (map_of (tr_tree tr') j) = map_option te_block (map_of (tr_tree tr) j)"
    and i: "map_option te_block (map_of (tr_tree tr') i) = Some b"
    and pl: "tr_payloads tr' = AList.update (b_body_id b)
      (index\<lparr>bi_active_blocks := insert i (bi_active_blocks index)\<rparr>) (tr_payloads tr)"
    and index: "index = get_or \<lparr>bi_body = b_body b, bi_active_blocks = {}\<rparr> (tr_payloads tr) (b_body_id b)"
  shows "payloads_wf tr'"
proof -
  have P: "hm_wf (tr_payloads tr)"
    and ent: "\<And>j e'. map_of (tr_tree tr) j = Some e' \<Longrightarrow>
      \<exists>ix. map_of (tr_payloads tr) (b_body_id (te_block e')) = Some ix \<and> j \<in> bi_active_blocks ix"
    and idx: "\<And>q ix. map_of (tr_payloads tr) q = Some ix \<Longrightarrow> bi_active_blocks ix \<noteq> {}"
    and act: "\<And>q ix j. map_of (tr_payloads tr) q = Some ix \<Longrightarrow> j \<in> bi_active_blocks ix \<Longrightarrow>
      \<exists>e'. map_of (tr_tree tr) j = Some e' \<and> b_body_id (te_block e') = q"
    using p unfolding payloads_wf_def by blast+
  let ?new = "index\<lparr>bi_active_blocks := insert i (bi_active_blocks index)\<rparr>"
  have pm: "map_of (tr_payloads tr') = (map_of (tr_payloads tr))(b_body_id b \<mapsto> ?new)"
    by (simp add: pl update_conv')
  have old: "\<exists>e'. map_of (tr_tree tr') j = Some e' \<and> te_block e' = te_block e" if "map_of (tr_tree tr) j = Some e" for j e
    using m [of j] that new by (cases "j = i") auto
  have "\<exists>ix. map_of (tr_payloads tr') (b_body_id (te_block e')) = Some ix \<and> j \<in> bi_active_blocks ix"
    if e': "map_of (tr_tree tr') j = Some e'" for j e'
  proof (cases "j = i")
    case True
    then show ?thesis
      using i e' by (auto simp: pm)
  next
    case False
    then obtain e where e: "map_of (tr_tree tr) j = Some e" "te_block e = te_block e'"
      using m [of j] e' by (cases "map_of (tr_tree tr) j") auto
    then show ?thesis
      using ent [OF e(1)] by (auto simp: pm index get_or_def)
  qed
  moreover have "bi_active_blocks ix \<noteq> {}" if "map_of (tr_payloads tr') q = Some ix" for q ix
    using that idx by (auto simp: pm split: if_splits)
  moreover have "\<exists>e'. map_of (tr_tree tr') j = Some e' \<and> b_body_id (te_block e') = q"
    if x: "map_of (tr_payloads tr') q = Some ix" "j \<in> bi_active_blocks ix" for q ix j
  proof (cases "q = b_body_id b \<and> j = i")
    case True
    then show ?thesis
      using i by auto
  next
    case False
    then obtain ix' where "map_of (tr_payloads tr) q = Some ix'" "j \<in> bi_active_blocks ix'"
      using x by (auto simp: pm index get_or_def split: if_splits option.splits)
    then obtain e where "map_of (tr_tree tr) j = Some e" "b_body_id (te_block e) = q"
      using act by blast
    then show ?thesis
      using old by fastforce
  qed
  ultimately show ?thesis
    unfolding payloads_wf_def using P by (auto simp: pl hm.wf_ins)
qed


text \<open>The entries after an insertion: the new one, its parent with one more child, the others as before.\<close>

lemma tree_insert_result:
  assumes W: "block_tree_wf C t" and new: "entry_of t (b_id C b) = None" and ne: "b_parent_id b \<noteq> b_id C b"
  obtains tr entry where "tree_insert C (blk_tree t) b = Some tr" and "payloads_wf tr" and "hm_wf (tr_tree tr)"
    and "te_block entry = b" and "\<not> te_coherent entry"
    and "set (te_children entry) = {j. \<exists>e. entry_of t j = Some e \<and> b_parent_id (te_block e) = b_id C b}"
    and "\<And>j. map_of (tr_tree tr) j =
      (if j = b_id C b then Some entry
       else if j = b_parent_id b then map_option (\<lambda>p. p\<lparr>te_children := te_children p @ [b_id C b]\<rparr>) (entry_of t j)
       else entry_of t j)"
proof -
  note W' = block_tree_wfD [OF W]
  let ?tr = "blk_tree t" and ?i = "b_id C b"
  let ?entry = "\<lparr>te_block = b, te_coherent = False,
    te_children = map fst (filter (\<lambda>(_, e). b_parent_id (te_block e) = ?i) (tr_tree ?tr))\<rparr>"
  let ?index = "get_or \<lparr>bi_body = b_body b, bi_active_blocks = {}\<rparr> (tr_payloads ?tr) (b_body_id b)"
  have index: "?i \<notin> bi_active_blocks ?index"
    using W'(3) new unfolding payloads_wf_def get_or_def
    by (cases "map_of (tr_payloads ?tr) (b_body_id b)") fastforce+
  define blocks where "blocks = AList.update ?i ?entry (tr_tree ?tr)"
  define blocks' where "blocks' = (case map_of blocks (b_parent_id b) of None \<Rightarrow> blocks
    | Some parent \<Rightarrow> AList.update (b_parent_id b) (parent\<lparr>te_children := te_children parent @ [?i]\<rparr>) blocks)"
  define tr where "tr = \<lparr>tr_tree = blocks', tr_payloads = AList.update (b_body_id b)
    (?index\<lparr>bi_active_blocks := insert ?i (bi_active_blocks ?index)\<rparr>) (tr_payloads ?tr)\<rparr>"
  have r: "tree_insert C ?tr b = Some tr"
    using new index by (simp add: tree_insert_def tr_def blocks'_def blocks_def Let_def rust_assert_def cong: option.case_cong)
  have m: "map_of (tr_tree tr) j =
      (if j = ?i then Some ?entry
       else if j = b_parent_id b then map_option (\<lambda>p. p\<lparr>te_children := te_children p @ [?i]\<rparr>) (entry_of t j)
       else entry_of t j)" for j
    using ne by (simp add: tr_def blocks'_def blocks_def update_conv' split: option.splits)
  have h: "hm_wf (tr_tree tr)"
    using W'(5) by (simp add: tr_def blocks'_def blocks_def hm.wf_ins split: option.splits)
  have c: "set (te_children ?entry) = {j. \<exists>e. entry_of t j = Some e \<and> b_parent_id (te_block e) = ?i}"
    using map_of_eq_Some_iff [OF W'(5) [unfolded hm_wf_def]] by (force simp: image_iff)
  have p: "payloads_wf tr"
  proof (rule payloads_wf_insert [OF W'(3) new, where b = b and index = ?index])
    show "map_option te_block (map_of (tr_tree tr) j) = map_option te_block (entry_of t j)" if "j \<noteq> ?i" for j
      using that by (simp add: m option.map_comp comp_def)
    show "map_option te_block (map_of (tr_tree tr) ?i) = Some b"
      by (simp add: m)
  qed (simp_all add: tr_def)
  show thesis
    by (rule that [OF r p h _ _ c m]) simp_all
qed


lemma tree_ordered_entry:
  assumes "tree_ordered t" and "entry_of t i = Some e"
  shows "b_parent_id (te_block e) = root_id t \<Longrightarrow> ri_round (blk_root t) \<le> b_parent_round (te_block e)"
    and "entry_of t (b_parent_id (te_block e)) = Some p \<Longrightarrow> b_round (te_block p) \<le> b_parent_round (te_block e)"
  using assms unfolding tree_ordered_def by blast+

lemma block_orderedD:
  assumes "block_ordered C t b"
  shows "b_parent_round b < b_round b" and "b_parent_id b \<noteq> b_id C b" and "b_id C b \<noteq> root_id t"
    and "b_parent_id b = root_id t \<Longrightarrow> ri_round (blk_root t) \<le> b_parent_round b"
    and "entry_of t (b_parent_id b) = Some p \<Longrightarrow> b_round (te_block p) \<le> b_parent_round b"
    and "entry_of t i = Some e \<Longrightarrow> b_parent_id (te_block e) = b_id C b \<Longrightarrow> b_round b \<le> b_parent_round (te_block e)"
  using assms unfolding block_ordered_def by blast+

lemma tree_grown_ordered:
  assumes o: "tree_ordered t" and ord: "block_ordered C t b"
    and new: "entry_of t (b_id C b) = None" "ri_round (blk_root t) < b_round b"
    and mb: "\<And>j. map_option te_block (entry_of t' j) =
      (if j = b_id C b then Some b else map_option te_block (entry_of t j))"
    and root: "blk_root t' = blk_root t"
  shows "tree_ordered t'"
proof -
  note O = block_orderedD [OF ord]
  have old: "\<exists>e. entry_of t j = Some e \<and> te_block e' = te_block e"
    if "entry_of t' j = Some e'" "j \<noteq> b_id C b" for j e'
    using mb [of j] that by (cases "entry_of t j") simp_all
  have i: "te_block e' = b" if "entry_of t' (b_id C b) = Some e'" for e'
    using mb [of "b_id C b"] that by simp
  have parent: "b_round (te_block p) \<le> b_parent_round (te_block e')"
    if e': "entry_of t' j = Some e'" and p: "entry_of t' (b_parent_id (te_block e')) = Some p" for j e' p
  proof (cases "j = b_id C b"; cases "b_parent_id (te_block e') = b_id C b")
    assume j: "j = b_id C b" "b_parent_id (te_block e') = b_id C b"
    have "te_block e' = b"
      by (rule i) (use e' j(1) in simp)
    then show ?thesis
      using j(2) O(2) by simp
  next
    assume j: "j = b_id C b" "b_parent_id (te_block e') \<noteq> b_id C b"
    obtain q where "entry_of t (b_parent_id (te_block e')) = Some q" "te_block p = te_block q"
      using old [OF p j(2)] by blast
    moreover have "te_block e' = b"
      by (rule i) (use e' j(1) in simp)
    ultimately show ?thesis
      using O(5) by simp
  next
    assume j: "j \<noteq> b_id C b" "b_parent_id (te_block e') = b_id C b"
    obtain e where "entry_of t j = Some e" "te_block e' = te_block e"
      using old [OF e' j(1)] by blast
    moreover have "te_block p = b"
      by (rule i) (use p j(2) in simp)
    ultimately show ?thesis
      using O(6) j(2) by simp
  next
    assume j: "j \<noteq> b_id C b" "b_parent_id (te_block e') \<noteq> b_id C b"
    obtain e where e: "entry_of t j = Some e" "te_block e' = te_block e"
      using old [OF e' j(1)] by blast
    obtain q where "entry_of t (b_parent_id (te_block e')) = Some q" "te_block p = te_block q"
      using old [OF p j(2)] by blast
    then show ?thesis
      using tree_ordered_entry(2) [OF o e(1)] e(2) by simp
  qed
  have "b_parent_round (te_block e') < b_round (te_block e') \<and> ri_round (blk_root t) < b_round (te_block e') \<and>
      (b_parent_id (te_block e') = root_id t \<longrightarrow> ri_round (blk_root t) \<le> b_parent_round (te_block e'))"
    if e': "entry_of t' j = Some e'" for j e'
  proof (cases "j = b_id C b")
    case True
    then have "te_block e' = b"
      using e' i by simp
    then show ?thesis
      using new(2) O(1,4) by simp
  next
    case False
    then obtain e where e: "entry_of t j = Some e" "te_block e' = te_block e"
      using old [OF e'] by blast
    then show ?thesis
      using tree_orderedD(1,2) [OF o e(1)] tree_ordered_entry(1) [OF o e(1)] by simp
  qed
  then show ?thesis
    unfolding tree_ordered_def root by (intro allI impI conjI) (auto dest: parent)
qed

lemma tree_grown_wf:
  assumes wf: "block_tree_wf C t" and ord: "block_ordered C t b"
    and new: "entry_of t (b_id C b) = None" "ri_round (blk_root t) < b_round b"
    and entry: "te_block entry = b" "\<not> te_coherent entry"
      "set (te_children entry) = {j. \<exists>e. entry_of t j = Some e \<and> b_parent_id (te_block e) = b_id C b}"
    and m: "\<And>j. entry_of t' j =
      (if j = b_id C b then Some entry
       else if j = b_parent_id b then map_option (\<lambda>p. p\<lparr>te_children := te_children p @ [b_id C b]\<rparr>) (entry_of t j)
       else entry_of t j)"
    and root: "blk_root t' = blk_root t"
      "set (blk_root_children t') = set (blk_root_children t) \<union> (if root_id t = b_parent_id b then {b_id C b} else {})"
    and hm: "hm_wf (tr_tree (blk_tree t'))"
  shows "tree_wf C t'" and "tree_ordered t'" and "coherent_closed t'"
proof -
  let ?i = "b_id C b"
  note W = block_tree_wfD [OF wf]
  have old: "\<exists>e. entry_of t j = Some e \<and> te_block e' = te_block e \<and> te_coherent e' = te_coherent e \<and>
      set (te_children e') = set (te_children e) \<union> (if j = b_parent_id b then {?i} else {})"
    if "entry_of t' j = Some e'" "j \<noteq> ?i" for j e'
    using that by (auto simp: m split: if_splits)
  have mb: "map_option te_block (entry_of t' j) = (if j = ?i then Some b else map_option te_block (entry_of t j))" for j
    using entry(1) by (simp add: m option.map_comp comp_def)
  have child: "(\<exists>e. entry_of t' j = Some e \<and> b_parent_id (te_block e) = k) \<longleftrightarrow>
      (\<exists>e. entry_of t j = Some e \<and> b_parent_id (te_block e) = k) \<or> j = ?i \<and> k = b_parent_id b" for j k
    using mb [of j] new(1) by (cases "entry_of t' j"; cases "entry_of t j"; cases "j = ?i") auto
  have ne: "b_parent_id b \<noteq> ?i"
    using ord by (simp add: block_ordered_def)
  show "tree_wf C t'"
    unfolding tree_wf_def child
  proof (intro conjI allI impI)
    fix j e' assume e': "entry_of t' j = Some e'"
    have "b_id C (te_block e') = j \<and>
      set (te_children e') = {k. \<exists>e. entry_of t k = Some e \<and> b_parent_id (te_block e) = j} \<union>
        (if j = b_parent_id b then {?i} else {})"
    proof (cases "j = ?i")
      case True
      then show ?thesis
        using e' entry ne by (simp add: m)
    next
      case False
      then show ?thesis
        using old [OF e' False] W(1) unfolding tree_wf_def by auto
    qed
    then show "b_id C (te_block e') = j" "set (te_children e') =
        {k. (\<exists>e. entry_of t k = Some e \<and> b_parent_id (te_block e) = j) \<or> k = ?i \<and> j = b_parent_id b}"
      by auto
  next
    have "?i \<noteq> root_id t" "entry_of t (root_id t) = None"
      using ord W(1) by (simp_all add: block_ordered_def tree_wf_def)
    then show "entry_of t' (root_id t') = None"
      by (auto simp: m root)
  qed (use hm root W(1) in \<open>auto simp: tree_wf_def\<close>)
  show "tree_ordered t'"
    by (rule tree_grown_ordered [OF W(2) ord new mb root(1)])
  show "coherent_closed t'"
    unfolding coherent_closed_def
  proof (intro allI impI)
    fix j e' assume e': "entry_of t' j = Some e'" "te_coherent e'"
    then have "j \<noteq> ?i"
      using entry(2) by (auto simp: m)
    then have "is_coherent t (b_parent_id (te_block e'))"
      using old [OF e'(1)] e'(2) W(4) by (auto simp: coherent_closed_def)
    then show "is_coherent t' (b_parent_id (te_block e'))"
      using new(1) by (auto simp: is_coherent_def m root split: option.splits if_splits)
  qed
qed

text \<open>
  C9. Adding a block keeps the tree's invariant. For a block whose QC rounds are consistent with the
  tree (which validation of its certificates gives), \<open>add\<close> does not panic, finds the block
  afterwards under its id when it was valid to insert, changes no other block, does not change which
  blocks are coherent, and the tree stays well formed: it becomes a child of its parent (or of the
  root), adopts the blocks that arrived before it, and its body is indexed.
\<close>

theorem block_tree_add_correct:
  assumes "block_tree_wf C t" and "block_ordered C t b"
  shows "\<exists>t'. block_tree_add C t b = Some t' \<and> block_tree_wf C t' \<and> blk_root t' = blk_root t \<and>
    (\<forall>i. get_block t' i = (if i = b_id C b \<and> is_valid_to_insert C t (b_header b) then Some b else get_block t i)) \<and>
    (\<forall>i. is_coherent t' i = is_coherent t i)"
proof (cases "is_valid_to_insert C t (b_header b)")
  case False
  then show ?thesis
    using assms by (simp add: block_tree_add_def)
next
  case True
  let ?i = "b_id C b"
  have new: "entry_of t ?i = None" "ri_round (blk_root t) < b_round b"
    using True by (simp_all add: is_valid_to_insert_def)
  have ne: "b_parent_id b \<noteq> ?i"
    using assms(2) by (simp add: block_ordered_def)
  note W = block_tree_wfD [OF assms(1)]
  obtain tr entry where tr: "tree_insert C (blk_tree t) b = Some tr" "payloads_wf tr" "hm_wf (tr_tree tr)"
    and entry: "te_block entry = b" "\<not> te_coherent entry"
      "set (te_children entry) = {j. \<exists>e. entry_of t j = Some e \<and> b_parent_id (te_block e) = ?i}"
    and m: "\<And>j. map_of (tr_tree tr) j =
      (if j = ?i then Some entry
       else if j = b_parent_id b then map_option (\<lambda>p. p\<lparr>te_children := te_children p @ [?i]\<rparr>) (entry_of t j)
       else entry_of t j)"
    by (rule tree_insert_result [OF assms(1) new(1) ne], rule that)
  define t' where "t' = t\<lparr>blk_tree := tr, blk_root_children :=
    (if b_parent_id b = root_id t then blk_root_children t @ [?i] else blk_root_children t)\<rparr>"
  have r: "block_tree_add C t b = Some t'"
    using True tr(1) by (simp add: block_tree_add_def t'_def)
  have blocks: "get_block t' j = (if j = ?i then Some b else get_block t j)" for j
    using entry(1) by (simp add: get_block_def t'_def m option.map_comp comp_def)
  have coherent: "is_coherent t' j = is_coherent t j" for j
    using entry(2) new(1) by (auto simp: is_coherent_def t'_def m split: option.splits)
  have "block_tree_wf C t'"
    unfolding block_tree_wf_def
    using tree_grown_wf [OF assms new, of entry t'] entry m tr(2,3) by (simp add: t'_def)
  then show ?thesis
    using r blocks coherent True by (simp add: t'_def)
qed


section \<open>An instance\<close>

definition chain_crypto :: "(unit, unit) crypto" where
  "chain_crypto = trivial_crypto\<lparr>header_id := \<lambda>h. h_block_round h + 1000\<rparr>"

definition chain_block :: "round \<Rightarrow> round \<Rightarrow> (unit, unit) consensus_full_block" where
  "chain_block r p =
     \<lparr>b_header = \<lparr>h_block_round = r, h_epoch = 3,
        h_qc = \<lparr>qc_info = \<lparr>v_id = p + 1000, v_round = p, v_epoch = 3\<rparr>, qc_signatures = ()\<rparr>,
        h_author = 2, h_seq_num = r, h_timestamp_ns = 0, h_round_signature = 0,
        h_delayed_execution_results = [], h_execution_inputs = (), h_block_body_id = r\<rparr>,
      b_body = ()\<rparr>"

lemma chain_simps [simp]:
  "header_id chain_crypto h = h_block_round h + 1000"
  "b_round (chain_block r p) = r" "b_parent_round (chain_block r p) = p" "b_parent_id (chain_block r p) = p + 1000"
  "b_body_id (chain_block r p) = r" "h_seq_num (b_header (chain_block r p)) = r"
  by (simp_all add: chain_crypto_def chain_block_def)

text \<open>A coherent block of round 3 on the root of round 2, and a block of round 4 on it, not yet coherent.\<close>

definition chain_tree :: "(unit, unit) block_tree" where
  "chain_tree =
     \<lparr>blk_root = \<lparr>ri_round = 2, ri_seq_num = 2, ri_epoch = 3, ri_block_id = 1002, ri_timestamp_ns = 0\<rparr>,
      blk_root_children = [1003],
      blk_tree = \<lparr>tr_tree = [(1003, \<lparr>te_block = chain_block 3 2, te_coherent = True, te_children = [1004]\<rparr>),
                            (1004, \<lparr>te_block = chain_block 4 3, te_coherent = False, te_children = []\<rparr>)],
                  tr_payloads = [(3, \<lparr>bi_body = (), bi_active_blocks = {1003}\<rparr>),
                                 (4, \<lparr>bi_body = (), bi_active_blocks = {1004}\<rparr>)]\<rparr>\<rparr>"

lemma chain_tree_entries:
  "entry_of chain_tree i =
     (if i = 1003 then Some \<lparr>te_block = chain_block 3 2, te_coherent = True, te_children = [1004]\<rparr>
      else if i = 1004 then Some \<lparr>te_block = chain_block 4 3, te_coherent = False, te_children = []\<rparr>
      else None)"
  by (simp add: chain_tree_def)

lemma chain_tree_all:
  "(\<forall>i e. entry_of chain_tree i = Some e \<longrightarrow> P i e) \<longleftrightarrow>
     P 1003 \<lparr>te_block = chain_block 3 2, te_coherent = True, te_children = [1004]\<rparr> \<and>
     P 1004 \<lparr>te_block = chain_block 4 3, te_coherent = False, te_children = []\<rparr>"
  (is "?all \<longleftrightarrow> P 1003 ?e3 \<and> P 1004 ?e4")
proof
  show "P 1003 ?e3 \<and> P 1004 ?e4" if ?all
    using that [rule_format, of 1003 ?e3] that [rule_format, of 1004 ?e4] by (simp add: chain_tree_entries)
  show ?all if "P 1003 ?e3 \<and> P 1004 ?e4"
    using that by (simp add: chain_tree_entries)
qed

lemma chain_tree_children:
  "{j. \<exists>e. entry_of chain_tree j = Some e \<and> b_parent_id (te_block e) = i} =
     (if i = 1002 then {1003} else if i = 1003 then {1004} else {})"
  by (auto simp: chain_tree_entries)

lemma chain_tree_root [simp]:
  "root_id chain_tree = 1002" "ri_round (blk_root chain_tree) = 2" "blk_root_children chain_tree = [1003]"
  by (simp_all add: chain_tree_def)

lemma chain_tree_wf: "block_tree_wf chain_crypto chain_tree"
proof -
  have "hm_wf (tr_tree (blk_tree chain_tree))"
    by (simp add: chain_tree_def hm_wf_def)
  then have "tree_wf chain_crypto chain_tree"
    unfolding tree_wf_def chain_tree_all chain_tree_children by (simp add: chain_tree_entries)
  moreover have "tree_ordered chain_tree"
    unfolding tree_ordered_def chain_tree_all by (simp add: chain_tree_entries)
  moreover have "payloads_wf (blk_tree chain_tree)"
    by (simp add: payloads_wf_def hm_wf_def chain_tree_def)
  moreover have "coherent_closed chain_tree"
    unfolding coherent_closed_def chain_tree_all by (simp add: is_coherent_def)
  ultimately show ?thesis
    by (simp add: block_tree_wf_def)
qed

lemma chain_tree_facts:
  "is_valid_to_insert chain_crypto chain_tree (b_header (chain_block 5 3))"
  "get_block chain_tree 1003 = Some (chain_block 3 2)" "is_coherent chain_tree 1003"
  "get_blocks_on_path_from_root chain_tree 1003 = Some (Some [chain_block 3 2])"
  by (simp_all add: is_valid_to_insert_def get_block_def is_coherent_def chain_tree_def
      get_blocks_on_path_from_root_def path_loop.simps)

lemma chain_tree_commit: "extends_commit chain_tree 1003"
  unfolding extends_commit_def
proof (intro allI impI)
  fix n i e ps
  assume n: "entry_of chain_tree 1003 = Some n" and i: "entry_of chain_tree i = Some e"
    and p: "root_path (entry_of chain_tree) (root_id chain_tree) i ps"
    and r: "b_round (te_block n) \<le> b_parent_round (te_block e)"
  have "b_parent_id (te_block e) = 1003"
    using n i r by (auto simp: chain_tree_entries split: if_splits)
  with p i obtain qs where qs: "root_path (entry_of chain_tree) (root_id chain_tree) 1003 qs" "set qs \<subseteq> set ps"
    by (cases rule: root_path.cases) auto
  show "1003 \<in> fst ` set ps"
    using root_path_last [OF qs(1)] qs(2) by (metis image_eqI last_in_set subsetD)
qed

theorem block_tree_add_correct_witness:
  "\<exists>t'. block_tree_add chain_crypto chain_tree (chain_block 5 3) = Some t' \<and> block_tree_wf chain_crypto t' \<and>
     get_block t' 1005 = Some (chain_block 5 3) \<and> get_block t' 1003 = Some (chain_block 3 2) \<and> is_coherent t' 1003"
proof -
  have "block_ordered chain_crypto chain_tree (chain_block 5 3)"
    by (simp add: block_ordered_def chain_tree_entries)
  from block_tree_add_correct [OF chain_tree_wf this]
  show ?thesis
    using chain_tree_facts by auto
qed

theorem prune_correct_witness:
  "\<exists>t' blocks. prune chain_crypto chain_tree 1003 = Some (t', blocks) \<and> root_id t' = 1003 \<and>
     blocks = [chain_block 3 2] \<and> block_tree_wf chain_crypto t' \<and> get_block t' 1004 = Some (chain_block 4 3)"
proof -
  obtain t' blocks where r: "prune chain_crypto chain_tree 1003 = Some (t', blocks)" "root_id t' = 1003"
    and p: "get_blocks_on_path_from_root chain_tree 1003 = Some (Some blocks)"
    and e: "1003 \<noteq> root_id chain_tree \<longrightarrow>
       (\<exists>b. get_block chain_tree 1003 = Some b \<and> ri_round (blk_root t') = b_round b \<and>
          ri_seq_num (blk_root t') = h_seq_num (b_header b)) \<and>
       (\<forall>i e. entry_of t' i = Some e \<longleftrightarrow>
          entry_of chain_tree i = Some e \<and> ri_round (blk_root t') \<le> b_parent_round (te_block e))"
    and w: "extends_commit chain_tree 1003 \<longrightarrow> block_tree_wf chain_crypto t'"
    using prune_correct [OF chain_tree_wf chain_tree_facts(3)] by blast
  have round: "ri_round (blk_root t') = 3"
    using e chain_tree_facts(2) by simp
  have "entry_of chain_tree 1004 = Some \<lparr>te_block = chain_block 4 3, te_coherent = False, te_children = []\<rparr>"
    by (simp add: chain_tree_entries)
  then have "entry_of t' 1004 = Some \<lparr>te_block = chain_block 4 3, te_coherent = False, te_children = []\<rparr>"
    using e round by simp
  then show ?thesis
    using r p w chain_tree_commit chain_tree_facts(4) by (simp add: get_block_def)
qed

end
