(* ===== verification/Coherency.thy ===== *)
theory Coherency
  imports Block_Tree_Growth
begin

text \<open>
  The walks over the block tree return on well-formed trees and compute what they promise: the
  update of coherency (\<open>try_update_coherency\<close>), the search for the highest committable QC
  (\<open>get_high_committable_qc\<close>) and the range of missing ancestors (\<open>maybe_fill_path_to_root\<close>).
\<close>

section \<open>Work lists of blocks\<close>

text \<open>
  Both searches take a block from a queue and add its children, which are of later rounds. The
  multiset of the distances to a bound on the rounds decreases.
\<close>

definition entry_round :: "('s, 'e) block_tree \<Rightarrow> block_id \<Rightarrow> round" where
  "entry_round t i = (case entry_of t i of None \<Rightarrow> 0 | Some e \<Rightarrow> b_round (te_block e))"

definition round_bound :: "('s, 'e) block_tree \<Rightarrow> round" where
  "round_bound t = Suc (sum_list (map (\<lambda>(i, e). b_round (te_block e)) (tr_tree (blk_tree t))))"

definition queue_measure :: "round \<Rightarrow> ('s, 'e) block_tree \<Rightarrow> block_id list \<Rightarrow> nat multiset" where
  "queue_measure bound t queue = image_mset (\<lambda>i. bound - entry_round t i) (mset queue)"

lemma entry_round_bound: "entry_of t i = Some e \<Longrightarrow> b_round (te_block e) < round_bound t"
  by (force simp: round_bound_def less_Suc_eq_le dest: map_of_SomeD intro: member_le_sum_list)

lemma queue_measure_tail: "queue_measure bound t rest < queue_measure bound t (i # rest)"
  using one_step_implies_multp [of "{#bound - entry_round t i#}" "{#}"]
  by (simp add: queue_measure_def less_multiset_def)

lemma tree_wf_child:
  assumes "block_tree_wf C t" and "entry_of t i = Some e" and "c \<in> set (te_children e)"
  obtains e' where "entry_of t c = Some e'" and "b_parent_id (te_block e') = i"
  using block_tree_wfD(1) [OF assms(1)] assms(2,3) unfolding tree_wf_def by blast

lemma queue_measure_children:
  assumes wf: "block_tree_wf C t" and e: "entry_of t i = Some e"
    and bound: "\<And>i e. entry_of t i = Some e \<Longrightarrow> b_round (te_block e) < bound"
  shows "queue_measure bound t (rest @ te_children e) < queue_measure bound t (i # rest)"
proof -
  let ?f = "\<lambda>i. bound - entry_round t i"
  have "?f c < ?f i" if c: "c \<in> set (te_children e)" for c
  proof -
    obtain e' where e': "entry_of t c = Some e'" "b_parent_id (te_block e') = i"
      using tree_wf_child [OF wf e c] by blast
    then have "b_round (te_block e) < b_round (te_block e')"
      using tree_orderedD(3) [OF block_tree_wfD(2) [OF wf] e'(1)] e by simp
    then show ?thesis
      using bound [OF e'(1)] e e'(1) by (simp add: entry_round_def)
  qed
  then have "image_mset ?f (mset rest) + image_mset ?f (mset (te_children e)) < image_mset ?f (mset rest) + {#?f i#}"
    unfolding less_multiset_def by (intro one_step_implies_multp) auto
  then show ?thesis
    by (simp add: queue_measure_def)
qed

lemmas queue_induct = wfp_induct_rule [OF wfp_less_multiset [OF wfp_on_less], case_names less]

section \<open>Marking blocks coherent\<close>

text \<open>\<open>marked S t t'\<close>: \<open>t'\<close> is \<open>t\<close> with the blocks of \<open>S\<close> marked coherent.\<close>

definition marked :: "block_id set \<Rightarrow> ('s, 'e) block_tree \<Rightarrow> ('s, 'e) block_tree \<Rightarrow> bool" where
  "marked S t t' \<longleftrightarrow>
     blk_root t' = blk_root t \<and> blk_root_children t' = blk_root_children t \<and>
     tr_payloads (blk_tree t') = tr_payloads (blk_tree t) \<and> hm_wf (tr_tree (blk_tree t')) \<and>
     (\<forall>j. entry_of t' j = map_option (\<lambda>e. e\<lparr>te_coherent := te_coherent e \<or> j \<in> S\<rparr>) (entry_of t j))"

lemma marked_refl: "hm_wf (tr_tree (blk_tree t)) \<Longrightarrow> marked {} t t"
  by (simp add: marked_def option.map_ident)

lemma marked_trans: "marked S t t' \<Longrightarrow> marked S' t' t'' \<Longrightarrow> marked (S \<union> S') t t''"
  by (simp add: marked_def option.map_comp comp_def disj_assoc)

lemma marked_block:
  assumes "marked S t t'"
  shows "map_option te_block (entry_of t' j) = map_option te_block (entry_of t j)"
    and "map_option te_children (entry_of t' j) = map_option te_children (entry_of t j)"
  using assms by (simp_all add: marked_def option.map_comp comp_def)

lemma marked_coherent:
  "marked S t t' \<Longrightarrow> is_coherent t' j \<longleftrightarrow> is_coherent t j \<or> j \<in> S \<and> entry_of t j \<noteq> None"
  by (auto simp: marked_def is_coherent_def split: option.splits)


lemma same_blocks_ex:
  assumes "map_option te_block (m' j) = map_option te_block (m j)"
  shows "(\<exists>e. m' j = Some e \<and> P (te_block e)) \<longleftrightarrow> (\<exists>e. m j = Some e \<and> P (te_block e))"
  using assms by (cases "m' j"; cases "m j") auto

lemma same_blocks_entry:
  assumes "map_option te_block (m' j) = map_option te_block (m j)" and "m' j = Some e'"
  obtains e where "m j = Some e" and "te_block e' = te_block e"
  using assms by (cases "m j") auto

lemma marked_ordered:
  assumes "tree_ordered t" and m: "marked S t t'"
  shows "tree_ordered t'"
  unfolding tree_ordered_def
proof (intro allI impI)
  fix i e' assume "entry_of t' i = Some e'"
  then obtain e where e: "entry_of t i = Some e" "te_block e' = te_block e"
    using same_blocks_entry [of "entry_of t'" i "entry_of t", OF marked_block(1) [OF m]] by blast
  have root: "blk_root t' = blk_root t"
    using m by (simp add: marked_def)
  have "b_round (te_block p') \<le> b_parent_round (te_block e)" if p': "entry_of t' (b_parent_id (te_block e)) = Some p'" for p'
  proof -
    obtain p where "entry_of t (b_parent_id (te_block e)) = Some p" "te_block p' = te_block p"
      using same_blocks_entry [of "entry_of t'" _ "entry_of t", OF marked_block(1) [OF m] p'] by blast
    then show ?thesis
      using tree_ordered_entry(2) [OF assms(1) e(1)] by simp
  qed
  then show "b_parent_round (te_block e') < b_round (te_block e') \<and> ri_round (blk_root t') < b_round (te_block e') \<and>
      (b_parent_id (te_block e') = root_id t' \<longrightarrow> ri_round (blk_root t') \<le> b_parent_round (te_block e')) \<and>
      (\<forall>p. entry_of t' (b_parent_id (te_block e')) = Some p \<longrightarrow> b_round (te_block p) \<le> b_parent_round (te_block e'))"
    using tree_orderedD(1,2) [OF assms(1) e(1)] tree_ordered_entry(1) [OF assms(1) e(1)] by (simp add: e(2) root)
qed

lemma marked_wf:
  assumes wf: "block_tree_wf C t" and m: "marked S t t'"
    and closed: "\<And>j e. j \<in> S \<Longrightarrow> entry_of t j = Some e \<Longrightarrow> is_coherent t' (b_parent_id (te_block e))"
  shows "block_tree_wf C t'"
proof -
  note W = block_tree_wfD [OF wf] and B = marked_block [OF m]
  have M: "blk_root t' = blk_root t" "blk_root_children t' = blk_root_children t"
      "tr_payloads (blk_tree t') = tr_payloads (blk_tree t)" "hm_wf (tr_tree (blk_tree t'))"
    using m by (simp_all add: marked_def)
  have child: "(\<exists>e. entry_of t' j = Some e \<and> b_parent_id (te_block e) = k) \<longleftrightarrow>
      (\<exists>e. entry_of t j = Some e \<and> b_parent_id (te_block e) = k)" for j k
    by (rule same_blocks_ex [where P = "\<lambda>b. b_parent_id b = k"]) (rule B(1))
  have body: "(\<exists>e. entry_of t' j = Some e \<and> b_body_id (te_block e) = k) \<longleftrightarrow>
      (\<exists>e. entry_of t j = Some e \<and> b_body_id (te_block e) = k)" for j k
    by (rule same_blocks_ex [where P = "\<lambda>b. b_body_id b = k"]) (rule B(1))
  have old: "\<exists>e. entry_of t j = Some e \<and> te_block e' = te_block e \<and> te_children e' = te_children e \<and>
      te_coherent e' = (te_coherent e \<or> j \<in> S)" if "entry_of t' j = Some e'" for j e'
    using that m by (auto simp: marked_def)
  have "tree_wf C t'"
    unfolding tree_wf_def child M(1,2)
  proof (intro conjI allI impI)
    fix i e' assume "entry_of t' i = Some e'"
    then obtain e where "entry_of t i = Some e" "te_block e' = te_block e" "te_children e' = te_children e"
      using old by blast
    then show "b_id C (te_block e') = i" "set (te_children e') =
        {j. \<exists>e. entry_of t j = Some e \<and> b_parent_id (te_block e) = i}"
      using W(1) unfolding tree_wf_def by simp_all
  qed (use W(1) M(4) B(1) [of "root_id t"] in \<open>simp_all add: tree_wf_def\<close>)
  moreover have "payloads_wf (blk_tree t')"
    unfolding payloads_wf_def M(3) body
  proof (intro conjI allI impI)
    fix i e' assume "entry_of t' i = Some e'"
    then obtain e where "entry_of t i = Some e" "te_block e' = te_block e"
      using old by blast
    then show "\<exists>index. map_of (tr_payloads (blk_tree t)) (b_body_id (te_block e')) = Some index \<and> i \<in> bi_active_blocks index"
      using W(3) unfolding payloads_wf_def by simp
  qed (use W(3) in \<open>simp_all add: payloads_wf_def\<close>)
  moreover have "coherent_closed t'"
    unfolding coherent_closed_def
  proof (intro allI impI)
    fix i e' assume "entry_of t' i = Some e'" "te_coherent e'"
    then obtain e where e: "entry_of t i = Some e" "te_block e' = te_block e" "te_coherent e \<or> i \<in> S"
      using old by blast
    then show "is_coherent t' (b_parent_id (te_block e'))"
      using closed [of i e] W(4) marked_coherent [OF m] unfolding coherent_closed_def by fastforce
  qed
  ultimately show ?thesis
    using marked_ordered [OF W(2) m] by (simp add: block_tree_wf_def)
qed


section \<open>The update of coherency\<close>

lemma marked_path:
  assumes "tree_ordered t" and m: "marked S t t'"
  shows "get_blocks_on_path_from_root t' i = get_blocks_on_path_from_root t i"
proof -
  have root: "blk_root t' = blk_root t"
    using m by (simp add: marked_def)
  have "path_loop t' i acc = path_loop t i acc" for acc
  proof (induction "entry_round t i" arbitrary: i acc rule: less_induct)
    case less
    show ?case
    proof (cases "entry_of t i")
      case None
      then show ?thesis
        using marked_block(1) [OF m, of i] by (simp add: path_loop.simps [of t' i] path_loop.simps [of t i])
    next
      case (Some e)
      then obtain e' where e': "entry_of t' i = Some e'" "te_block e' = te_block e"
        using marked_block(1) [OF m, of i] by auto
      have "path_loop t' (b_parent_id (te_block e)) acc' = path_loop t (b_parent_id (te_block e)) acc'" for acc'
      proof (cases "entry_of t (b_parent_id (te_block e))")
        case None
        then show ?thesis
          using marked_block(1) [OF m, of "b_parent_id (te_block e)"]
          by (simp add: path_loop.simps [of t' "b_parent_id (te_block e)"] path_loop.simps [of t "b_parent_id (te_block e)"])
      next
        case (Some p)
        then show ?thesis
          using less tree_orderedD(3) [OF assms(1) \<open>entry_of t i = Some e\<close> Some] \<open>entry_of t i = Some e\<close>
          by (simp add: entry_round_def)
      qed
      then show ?thesis
        using e' Some by (simp add: path_loop.simps [of t' i] path_loop.simps [of t i] root)
    qed
  qed
  then show ?thesis
    by (simp add: get_blocks_on_path_from_root_def root)
qed

lemma coherent_parent_path:
  assumes wf: "block_tree_wf C t" and e: "entry_of t i = Some e" and c: "is_coherent t (b_parent_id (te_block e))"
  shows "\<exists>path. get_blocks_on_path_from_root t i = Some (Some (path @ [te_block e]))"
proof -
  note W = block_tree_wfD [OF wf]
  have i: "i \<noteq> root_id t"
    using W(1) e by (auto simp: tree_wf_def)
  have "\<exists>ps. root_path (entry_of t) (root_id t) i (ps @ [(i, e)])"
  proof (cases "b_parent_id (te_block e) = root_id t")
    case True
    then show ?thesis
      using path_base [of "entry_of t" i e "root_id t"] e by (intro exI [of _ "[]"]) simp
  next
    case False
    then obtain p where "entry_of t (b_parent_id (te_block e)) = Some p" "te_coherent p"
      using c by (auto simp: is_coherent_def split: option.splits)
    then obtain ps where "root_path (entry_of t) (root_id t) (b_parent_id (te_block e)) ps"
      using coherent_path [OF W(2,4)] by blast
    then show ?thesis
      using path_step [of "entry_of t" i e "root_id t" ps] e False by blast
  qed
  then obtain ps where p: "root_path (entry_of t) (root_id t) i (ps @ [(i, e)])" ..
  have "path_loop t i [] = Some (Some (path_blocks (ps @ [(i, e)])))"
  proof -
    obtain ps' where "root_path (entry_of t) (root_id t) i ps'" "path_loop t i [] = Some (Some (path_blocks ps' @ []))"
      using path_loop_ends [OF W(2), of i "[]"] p by blast
    then show ?thesis
      using root_path_unique [OF p] by simp
  qed
  then show ?thesis
    using i by (simp add: get_blocks_on_path_from_root_def)
qed

text \<open>The block policy's check on a block, given the blocks between it and the root.\<close>

definition passes ::
  "(('s, 'e) consensus_full_block \<Rightarrow> ('s, 'e) consensus_full_block list \<Rightarrow> root_info \<Rightarrow> block_policy_error + unit) \<Rightarrow>
   ('s, 'e) block_tree \<Rightarrow> block_id \<Rightarrow> bool" where
  "passes chk t i \<longleftrightarrow>
     (\<exists>path b. get_blocks_on_path_from_root t i = Some (Some (path @ [b])) \<and> chk b path (blk_root t) = Inr ())"

lemma marked_passes: "tree_ordered t \<Longrightarrow> marked S t t' \<Longrightarrow> passes chk t' i = passes chk t i"
  by (simp add: passes_def marked_path) (simp add: marked_def)

lemma set_coherent_marked:
  assumes "hm_wf (tr_tree (blk_tree t))" and "entry_of t j = Some e"
  obtains tr where "set_coherent (blk_tree t) j True = Some tr" and "marked {j} t (t\<lparr>blk_tree := tr\<rparr>)"
    and "map_of (tr_tree tr) j = Some (e\<lparr>te_coherent := True\<rparr>)"
proof -
  let ?tr = "(blk_tree t)\<lparr>tr_tree := AList.update j (e\<lparr>te_coherent := True\<rparr>) (tr_tree (blk_tree t))\<rparr>"
  have "marked {j} t (t\<lparr>blk_tree := ?tr\<rparr>)"
    using assms by (auto simp: marked_def update_conv' hm.wf_ins option.map_ident)
  then show thesis
    using that [of ?tr] assms(2) by (simp add: set_coherent_def update_conv')
qed

lemma marked_entry_round: "marked S t t' \<Longrightarrow> entry_round t' = entry_round t"
  by (auto simp: entry_round_def marked_def fun_eq_iff split: option.splits)


text \<open>
  The blocks that a run of the work list marks: they pass the check, and every block of the queue,
  and every child of a marked block, is marked if it passes.
\<close>

definition newly_coherent ::
  "(('s, 'e) consensus_full_block \<Rightarrow> ('s, 'e) consensus_full_block list \<Rightarrow> root_info \<Rightarrow> block_policy_error + unit) \<Rightarrow>
   ('s, 'e) block_tree \<Rightarrow> block_id list \<Rightarrow> block_id set \<Rightarrow> bool" where
  "newly_coherent chk t queue S \<longleftrightarrow>
     (\<forall>j \<in> S. passes chk t j \<and> entry_of t j \<noteq> None) \<and> (\<forall>j \<in> set queue. passes chk t j \<longrightarrow> j \<in> S) \<and>
     (\<forall>j \<in> S. \<forall>c e. entry_of t c = Some e \<longrightarrow> b_parent_id (te_block e) = j \<longrightarrow> passes chk t c \<longrightarrow> c \<in> S)"

lemma newly_coherent_marked:
  assumes wf: "block_tree_wf C t" and m: "marked {j} t t'" and e: "entry_of t j = Some e" and p: "passes chk t j"
    and n: "newly_coherent chk t' (rest @ te_children e) S"
  shows "newly_coherent chk t (j # rest) (insert j S)"
proof -
  note W = block_tree_wfD [OF wf]
  have P: "passes chk t' i = passes chk t i" for i
    by (rule marked_passes [OF W(2) m])
  have E: "entry_of t' i = None \<longleftrightarrow> entry_of t i = None" for i
    using marked_block(1) [OF m, of i] by (cases "entry_of t i") auto
  have kids: "c \<in> set (te_children e)" if "entry_of t c = Some e'" "b_parent_id (te_block e') = j" for c e'
    using W(1) e that unfolding tree_wf_def by blast
  have child: "c \<in> S" if c: "entry_of t c = Some e'" "b_parent_id (te_block e') = k" "k \<in> S" "passes chk t c" for c k e'
  proof -
    obtain e'' where "entry_of t' c = Some e''" "te_block e'' = te_block e'"
      using marked_block(1) [OF m, of c] c(1) by (cases "entry_of t' c") auto
    then show ?thesis
      using n c P unfolding newly_coherent_def by metis
  qed
  have "passes chk t i \<and> entry_of t i \<noteq> None" if "i \<in> insert j S" for i
    using n that p e E P by (cases "i = j") (auto simp: newly_coherent_def)
  moreover have "i \<in> insert j S" if "i \<in> set (j # rest)" "passes chk t i" for i
    using n that P by (cases "i = j") (auto simp: newly_coherent_def)
  moreover have "c \<in> insert j S"
    if c: "k \<in> insert j S" "entry_of t c = Some e'" "b_parent_id (te_block e') = k" "passes chk t c" for c k e'
  proof (cases "k = j")
    case True
    then have "c \<in> set (te_children e)"
      using kids [OF c(2)] c(3) by simp
    then show ?thesis
      using n c(4) P unfolding newly_coherent_def by auto
  next
    case False
    then show ?thesis
      using child [OF c(2,3)] c by simp
  qed
  ultimately show ?thesis
    unfolding newly_coherent_def by blast
qed

text \<open>Marking a block whose parent is coherent makes its children ready for the check.\<close>

lemma marked_step:
  assumes wf: "block_tree_wf C t" and m: "marked {j} t t'" and e: "entry_of t j = Some e"
    and c: "is_coherent t (b_parent_id (te_block e))"
    and queue: "\<And>k. k \<in> set rest \<Longrightarrow> \<exists>e. entry_of t k = Some e \<and> is_coherent t (b_parent_id (te_block e))"
  shows "block_tree_wf C t'"
    and "k \<in> set (rest @ te_children e) \<Longrightarrow> \<exists>e. entry_of t' k = Some e \<and> is_coherent t' (b_parent_id (te_block e))"
proof -
  note coh = marked_coherent [OF m]
  show "block_tree_wf C t'"
    using c e by (intro marked_wf [OF wf m]) (simp add: coh)
  have new: "\<exists>e'. entry_of t' k = Some e' \<and> is_coherent t' (b_parent_id (te_block e'))"
    if "entry_of t k = Some e0" "is_coherent t' (b_parent_id (te_block e0))" for k e0
    using marked_block(1) [OF m, of k] that by (cases "entry_of t' k") auto
  assume "k \<in> set (rest @ te_children e)"
  then consider "k \<in> set rest" | "k \<in> set (te_children e)"
    by auto
  then show "\<exists>e. entry_of t' k = Some e \<and> is_coherent t' (b_parent_id (te_block e))"
  proof cases
    case 1
    then obtain e0 where "entry_of t k = Some e0" "is_coherent t (b_parent_id (te_block e0))"
      using queue by blast
    then show ?thesis
      using new coh by blast
  next
    case 2
    then obtain e0 where "entry_of t k = Some e0" "b_parent_id (te_block e0) = j"
      using tree_wf_child [OF wf e] by blast
    then show ?thesis
      using new coh e by blast
  qed
qed

lemma coherency_loop_correct:
  assumes "block_tree_wf C t" and "\<And>i e. entry_of t i = Some e \<Longrightarrow> b_round (te_block e) < bound"
    and "\<And>j. j \<in> set queue \<Longrightarrow> \<exists>e. entry_of t j = Some e \<and> is_coherent t (b_parent_id (te_block e))"
  shows "\<exists>S t' bs. coherency_loop C chk t queue ret = Some (t', ret @ bs) \<and> marked S t t' \<and> block_tree_wf C t' \<and>
    S = b_id C ` set bs \<and> newly_coherent chk t queue S"
  using assms
proof (induction "queue_measure bound t queue" arbitrary: t queue ret rule: queue_induct)
  case less
  note wf = less.prems(1) and bound = less.prems(2) and queue = less.prems(3)
  note W = block_tree_wfD [OF wf]
  show ?case
  proof (cases queue)
    case Nil
    then show ?thesis
      using wf marked_refl [OF W(5)] by (subst coherency_loop.simps) (auto simp: newly_coherent_def)
  next
    case (Cons j rest)
    obtain e where e: "entry_of t j = Some e" "is_coherent t (b_parent_id (te_block e))"
      using queue Cons by auto
    obtain path where path: "get_blocks_on_path_from_root t j = Some (Some (path @ [te_block e]))"
      using coherent_parent_path [OF wf e] by blast
    show ?thesis
    proof (cases "chk (te_block e) path (blk_root t)")
      case (Inl err)
      have "coherency_loop C chk t queue ret = coherency_loop C chk t rest ret"
        using Cons path Inl by (subst coherency_loop.simps) simp
      moreover have "\<not> passes chk t j"
        using path Inl by (simp add: passes_def)
      ultimately show ?thesis
        using less.hyps [of t rest ret] queue_measure_tail [of bound t rest j] wf bound queue Cons
        by (auto simp: newly_coherent_def)
    next
      case (Inr u)
      then have pass: "passes chk t j"
        using path by (simp add: passes_def)
      obtain tr where tr: "set_coherent (blk_tree t) j True = Some tr" "marked {j} t (t\<lparr>blk_tree := tr\<rparr>)"
          "map_of (tr_tree tr) j = Some (e\<lparr>te_coherent := True\<rparr>)"
        using set_coherent_marked [OF W(5) e(1)] by blast
      let ?t = "t\<lparr>blk_tree := tr\<rparr>"
      have loop: "coherency_loop C chk t queue ret =
          coherency_loop C chk ?t (rest @ te_children e) (ret @ [te_block e])"
        using Cons path Inr tr by (subst coherency_loop.simps) simp
      have queue': "\<And>k. k \<in> set rest \<Longrightarrow> \<exists>e. entry_of t k = Some e \<and> is_coherent t (b_parent_id (te_block e))"
        using queue Cons by simp
      have bound': "b_round (te_block x) < bound" if "entry_of ?t i = Some x" for i x
        using same_blocks_entry [of "entry_of ?t" i "entry_of t", OF marked_block(1) [OF tr(2)] that] bound by metis
      have smaller: "queue_measure bound ?t (rest @ te_children e) < queue_measure bound t queue"
        using queue_measure_children [OF wf e(1) bound] Cons
        by (simp add: queue_measure_def marked_entry_round [OF tr(2)])
      have step: "block_tree_wf C ?t"
        by (rule marked_step(1) [OF wf tr(2) e]) (rule queue')
      have ready: "\<exists>e. entry_of ?t k = Some e \<and> is_coherent ?t (b_parent_id (te_block e))"
        if "k \<in> set (rest @ te_children e)" for k
        by (rule marked_step(2) [OF wf tr(2) e _ that]) (rule queue')
      have "\<exists>S t' bs. coherency_loop C chk ?t (rest @ te_children e) (ret @ [te_block e]) =
            Some (t', (ret @ [te_block e]) @ bs) \<and> marked S ?t t' \<and> block_tree_wf C t' \<and> S = b_id C ` set bs \<and>
          newly_coherent chk ?t (rest @ te_children e) S"
        by (rule less.hyps [OF smaller step]) (erule bound', erule ready)
      then obtain S t' bs where r: "coherency_loop C chk ?t (rest @ te_children e) (ret @ [te_block e]) =
            Some (t', (ret @ [te_block e]) @ bs)" "marked S ?t t'" "block_tree_wf C t'" "S = b_id C ` set bs"
          "newly_coherent chk ?t (rest @ te_children e) S"
        by blast
      have id: "b_id C (te_block e) = j"
        using W(1) e(1) by (simp add: tree_wf_def)
      have "marked (insert j S) t t'"
        using marked_trans [OF tr(2) r(2)] by simp
      moreover have "newly_coherent chk t queue (insert j S)"
        using newly_coherent_marked [OF wf tr(2) e(1) pass r(5)] Cons by simp
      ultimately show ?thesis
        using loop r(1,3,4) id by (intro exI [of _ "insert j S"] exI [of _ t'] exI [of _ "te_block e # bs"]) simp
    qed
  qed
qed


lemma find_incoherent_append:
  "find_incoherent C t (xs @ ys) =
     (case find_incoherent C t xs of Some None \<Rightarrow> find_incoherent C t ys | r \<Rightarrow> r)"
  by (induction xs) (simp_all split: option.splits)

lemma find_incoherent_snoc:
  assumes "entry_of t (b_id C (te_block e)) = Some e"
  shows "find_incoherent C t (path_blocks (ps @ [(i, e)])) =
    (case find_incoherent C t (path_blocks ps) of
       Some None \<Rightarrow> Some (if te_coherent e then None else Some (te_block e)) | r \<Rightarrow> r)"
  unfolding map_append find_incoherent_append using assms by (simp split: option.split)

lemma tree_wf_entry:
  assumes "block_tree_wf C t" and "entry_of t i = Some e"
  shows "b_id C (te_block e) = i" and "i \<noteq> root_id t" and "is_coherent t i \<longleftrightarrow> te_coherent e"
    and "is_coherent t i \<Longrightarrow> is_coherent t (b_parent_id (te_block e))"
proof -
  show i: "b_id C (te_block e) = i" "i \<noteq> root_id t"
    using block_tree_wfD(1) [OF assms(1)] assms(2) by (auto simp: tree_wf_def)
  then show c: "is_coherent t i \<longleftrightarrow> te_coherent e"
    using assms(2) by (simp add: is_coherent_def)
  show "is_coherent t (b_parent_id (te_block e))" if "is_coherent t i"
    using block_tree_wfD(4) [OF assms(1)] assms(2) that c unfolding coherent_closed_def by blast
qed

text \<open>The first incoherent block of a path: its parent is coherent, and the block at the end is not.\<close>

lemma find_incoherent_path:
  assumes wf: "block_tree_wf C t" and "root_path (entry_of t) (root_id t) i ps"
  shows "find_incoherent C t (path_blocks ps) = Some None \<and> is_coherent t i \<or>
    (\<exists>b e. find_incoherent C t (path_blocks ps) = Some (Some b) \<and> \<not> is_coherent t i \<and>
       entry_of t (b_id C b) = Some e \<and> te_block e = b \<and> is_coherent t (b_parent_id b))"
  using assms(2)
proof (induction rule: root_path.induct)
  case (path_base i e)
  note E = tree_wf_entry [OF wf path_base(1)]
  have "is_coherent t (b_parent_id (te_block e))"
    using path_base(2) by (simp add: is_coherent_def)
  then show ?case
    using E path_base(1) by (cases "te_coherent e") simp_all
next
  case (path_step i e ps)
  note E = tree_wf_entry [OF wf path_step(1)]
  have snoc: "find_incoherent C t (path_blocks (ps @ [(i, e)])) =
    (case find_incoherent C t (path_blocks ps) of
       Some None \<Rightarrow> Some (if te_coherent e then None else Some (te_block e)) | r \<Rightarrow> r)"
    by (rule find_incoherent_snoc) (simp add: E(1) path_step(1))
  show ?case
    unfolding snoc using path_step.IH
  proof (elim disjE exE conjE)
    assume "find_incoherent C t (path_blocks ps) = Some None" "is_coherent t (b_parent_id (te_block e))"
    then show "(case find_incoherent C t (path_blocks ps) of
        Some None \<Rightarrow> Some (if te_coherent e then None else Some (te_block e)) | r \<Rightarrow> r) = Some None \<and> is_coherent t i \<or>
      (\<exists>b e'. (case find_incoherent C t (path_blocks ps) of
        Some None \<Rightarrow> Some (if te_coherent e then None else Some (te_block e)) | r \<Rightarrow> r) = Some (Some b) \<and>
        \<not> is_coherent t i \<and> entry_of t (b_id C b) = Some e' \<and> te_block e' = b \<and> is_coherent t (b_parent_id b))"
      using E path_step(1) by (cases "te_coherent e") simp_all
  next
    fix b e'
    assume "find_incoherent C t (path_blocks ps) = Some (Some b)" "\<not> is_coherent t (b_parent_id (te_block e))"
      "entry_of t (b_id C b) = Some e'" "te_block e' = b" "is_coherent t (b_parent_id b)"
    then show "(case find_incoherent C t (path_blocks ps) of
        Some None \<Rightarrow> Some (if te_coherent e then None else Some (te_block e)) | r \<Rightarrow> r) = Some None \<and> is_coherent t i \<or>
      (\<exists>b e'. (case find_incoherent C t (path_blocks ps) of
        Some None \<Rightarrow> Some (if te_coherent e then None else Some (te_block e)) | r \<Rightarrow> r) = Some (Some b) \<and>
        \<not> is_coherent t i \<and> entry_of t (b_id C b) = Some e' \<and> te_block e' = b \<and> is_coherent t (b_parent_id b))"
      using E(4) by auto
  qed
qed

lemma newly_coherent_path:
  assumes wf: "block_tree_wf C t" and "root_path (entry_of t) (root_id t) i ps"
    and "find_incoherent C t (path_blocks ps) = Some (Some b)" and S: "newly_coherent chk t [b_id C b] S"
    and "\<And>x. x \<in> set (path_blocks ps) \<Longrightarrow> is_coherent t (b_id C x) \<or> passes chk t (b_id C x)"
  shows "i \<in> S"
  using assms(2,3,5)
proof (induction rule: root_path.induct)
  case (path_base i e)
  note E = tree_wf_entry [OF wf path_base(1)]
  have "b = te_block e" "\<not> is_coherent t i"
    using path_base(1,3) E by (auto split: if_splits)
  then show ?case
    using path_base(4) [of "te_block e"] E(1) S by (auto simp: newly_coherent_def)
next
  case (path_step i e ps)
  note E = tree_wf_entry [OF wf path_step(1)]
  have snoc: "find_incoherent C t (path_blocks (ps @ [(i, e)])) =
    (case find_incoherent C t (path_blocks ps) of
       Some None \<Rightarrow> Some (if te_coherent e then None else Some (te_block e)) | r \<Rightarrow> r)"
    by (rule find_incoherent_snoc) (simp add: E(1) path_step(1))
  have incoherent: "\<not> is_coherent t i"
    using find_incoherent_path [OF wf root_path.path_step [OF path_step(1-3)]] path_step.prems(1)
    by (metis option.distinct(1) option.inject)
  have "is_coherent t (b_id C (te_block e)) \<or> passes chk t (b_id C (te_block e))"
    by (rule path_step.prems(2)) simp
  then have pass: "passes chk t i"
    using E(1) incoherent by simp
  show ?case
    using find_incoherent_path [OF wf path_step(3)]
  proof (elim disjE exE conjE)
    assume "find_incoherent C t (path_blocks ps) = Some None"
    then have "b = te_block e"
      using path_step.prems(1) unfolding snoc by (auto split: if_splits)
    then show ?thesis
      using S pass E(1) unfolding newly_coherent_def by simp
  next
    fix b'
    assume f: "find_incoherent C t (path_blocks ps) = Some (Some b')"
    then have "find_incoherent C t (path_blocks ps) = Some (Some b)"
      using path_step.prems(1) unfolding snoc by simp
    moreover have "is_coherent t (b_id C x) \<or> passes chk t (b_id C x)" if "x \<in> set (path_blocks ps)" for x
      using path_step.prems(2) that by simp
    ultimately have "b_parent_id (te_block e) \<in> S"
      by (rule path_step.IH)
    then show ?thesis
      using S pass path_step(1) unfolding newly_coherent_def by blast
  qed
qed


text \<open>Every block of a path has its parent on the path or the root as its parent.\<close>

lemma root_path_coherent:
  assumes wf: "block_tree_wf C t" and "root_path (entry_of t) (root_id t) i ps" and "is_coherent t i"
  shows "\<forall>b \<in> set (path_blocks ps). is_coherent t (b_id C b)"
  using assms(2,3)
proof (induction rule: root_path.induct)
  case (path_base i e)
  then show ?case
    using tree_wf_entry(1) [OF wf path_base(1)] by simp
next
  case (path_step i e ps)
  then show ?case
    using tree_wf_entry(1,4) [OF wf path_step(1)] by simp
qed

lemma marked_root_path:
  assumes "root_path (entry_of t) root i ps" and m: "marked S t t'"
  shows "\<exists>ps'. root_path (entry_of t') root i ps' \<and> path_blocks ps' = path_blocks ps"
  using assms(1)
proof (induction rule: root_path.induct)
  case (path_base i e)
  obtain e' where "entry_of t' i = Some e'" "te_block e' = te_block e"
    using marked_block(1) [OF m, of i] path_base(1) by (cases "entry_of t' i") auto
  then show ?case
    using path_base(2) by (intro exI [of _ "[(i, e')]"]) (simp add: root_path.path_base)
next
  case (path_step i e ps)
  then obtain ps' where ps': "root_path (entry_of t') root (b_parent_id (te_block e)) ps'" "path_blocks ps' = path_blocks ps"
    by blast
  obtain e' where "entry_of t' i = Some e'" "te_block e' = te_block e"
    using marked_block(1) [OF m, of i] path_step(1) by (cases "entry_of t' i") auto
  then show ?case
    using path_step(2) ps' by (intro exI [of _ "ps' @ [(i, e')]"]) (simp add: root_path.path_step comp_def)
qed

text \<open>What \<open>try_update_coherency\<close> does on a tree whose block \<open>i\<close> is connected to the root by \<open>ps\<close>.\<close>

lemma update_coherency_path:
  assumes wf: "block_tree_wf C t" and p: "root_path (entry_of t) (root_id t) i ps"
    and get: "get_blocks_on_path_from_root t i = Some (Some (path_blocks ps))"
  shows "\<exists>S t' bs. block_tree_try_update_coherency C chk t i = Some (t', bs) \<and> marked S t t' \<and> block_tree_wf C t' \<and>
    S = b_id C ` set bs \<and> (\<forall>j \<in> S. passes chk t j \<and> entry_of t j \<noteq> None) \<and>
    (is_coherent t' i \<longleftrightarrow> (\<forall>b \<in> set (path_blocks ps). is_coherent t (b_id C b) \<or> passes chk t (b_id C b)))"
  using find_incoherent_path [OF wf p]
proof (elim disjE exE conjE)
  assume f: "find_incoherent C t (path_blocks ps) = Some None" "is_coherent t i"
  then have "block_tree_try_update_coherency C chk t i = Some (t, [])"
    by (simp add: block_tree_try_update_coherency_def get)
  then show ?thesis
    using marked_refl [OF block_tree_wfD(5) [OF wf]] wf root_path_coherent [OF wf p f(2)] f(2) by simp
next
  fix b e
  assume f: "find_incoherent C t (path_blocks ps) = Some (Some b)" "\<not> is_coherent t i"
    and e: "entry_of t (b_id C b) = Some e" "te_block e = b" "is_coherent t (b_parent_id b)"
  have "\<exists>S t' bs. coherency_loop C chk t [b_id C b] [] = Some (t', [] @ bs) \<and> marked S t t' \<and> block_tree_wf C t' \<and>
      S = b_id C ` set bs \<and> newly_coherent chk t [b_id C b] S"
    by (rule coherency_loop_correct [OF wf entry_round_bound]) (use e in simp_all)
  then obtain S t' bs where r: "coherency_loop C chk t [b_id C b] [] = Some (t', bs)" "marked S t t'" "block_tree_wf C t'"
      "S = b_id C ` set bs" "newly_coherent chk t [b_id C b] S"
    by auto
  have "is_coherent t' i \<longleftrightarrow> i \<in> S"
    using marked_coherent [OF r(2)] f(2) r(5) by (auto simp: newly_coherent_def)
  moreover have "\<forall>b \<in> set (path_blocks ps). is_coherent t (b_id C b) \<or> passes chk t (b_id C b)" if i: "is_coherent t' i"
  proof -
    obtain ps' where "root_path (entry_of t') (root_id t') i ps'" "path_blocks ps' = path_blocks ps"
      using marked_root_path [OF p r(2)] r(2) by (auto simp: marked_def)
    then show ?thesis
      using root_path_coherent [OF r(3) _ i] marked_coherent [OF r(2)] r(5) unfolding newly_coherent_def by metis
  qed
  moreover have "i \<in> S" if "\<forall>b \<in> set (path_blocks ps). is_coherent t (b_id C b) \<or> passes chk t (b_id C b)"
    by (rule newly_coherent_path [OF wf p f(1) r(5)]) (use that in blast)
  moreover have "block_tree_try_update_coherency C chk t i = Some (t', bs)"
    using r(1) f(1) by (simp add: block_tree_try_update_coherency_def get)
  moreover have "\<forall>j \<in> S. passes chk t j \<and> entry_of t j \<noteq> None"
    using r(5) by (simp add: newly_coherent_def)
  ultimately show ?thesis
    using r(2-4) by blast
qed


text \<open>
  C10. The update of coherency is exact. On a well-formed tree \<open>try_update_coherency\<close> returns without
  a panic, whatever the block policy answers; it changes no block and keeps the invariant; the
  blocks it returns are exactly the ones that become coherent, and each passed the policy's check
  on the blocks between it and the root; and a block connected to the root is coherent afterwards
  iff every block on its path was coherent before or passes the check.
\<close>

theorem try_update_coherency_correct:
  assumes "block_tree_wf C t"
  shows "\<exists>t' bs. block_tree_try_update_coherency C chk t i = Some (t', bs) \<and> block_tree_wf C t' \<and>
    blk_root t' = blk_root t \<and> (\<forall>j. get_block t' j = get_block t j) \<and>
    (\<forall>j. is_coherent t' j \<longleftrightarrow> is_coherent t j \<or> j \<in> b_id C ` set bs) \<and>
    (\<forall>b \<in> set bs. passes chk t (b_id C b)) \<and>
    (\<forall>path. get_blocks_on_path_from_root t i = Some (Some path) \<longrightarrow>
       (is_coherent t' i \<longleftrightarrow> (\<forall>b \<in> set path. is_coherent t (b_id C b) \<or> passes chk t (b_id C b))))"
proof (cases "i = root_id t \<or> (\<forall>ps. \<not> root_path (entry_of t) (root_id t) i ps)")
  case True
  then have "get_blocks_on_path_from_root t i = Some (if i = root_id t then Some [] else None)"
    using path_loop_ends [OF block_tree_wfD(2) [OF assms], of i "[]"] by (auto simp: get_blocks_on_path_from_root_def)
  then show ?thesis
    using assms by (auto simp: block_tree_try_update_coherency_def is_coherent_def)
next
  case False
  then obtain ps where p: "root_path (entry_of t) (root_id t) i ps"
      "get_blocks_on_path_from_root t i = Some (Some (path_blocks ps))"
    using path_loop_ends [OF block_tree_wfD(2) [OF assms], of i "[]"] by (auto simp: get_blocks_on_path_from_root_def)
  obtain S t' bs where r: "block_tree_try_update_coherency C chk t i = Some (t', bs)" "marked S t t'" "block_tree_wf C t'"
      "S = b_id C ` set bs" "\<forall>j \<in> S. passes chk t j \<and> entry_of t j \<noteq> None"
      "is_coherent t' i \<longleftrightarrow> (\<forall>b \<in> set (path_blocks ps). is_coherent t (b_id C b) \<or> passes chk t (b_id C b))"
    using update_coherency_path [OF assms p, of chk] by (elim exE conjE) (rule that)
  have "blk_root t' = blk_root t"
    using r(2) by (simp add: marked_def)
  moreover have "get_block t' j = get_block t j" for j
    using marked_block(1) [OF r(2)] by (simp add: get_block_def)
  moreover have "is_coherent t' j \<longleftrightarrow> is_coherent t j \<or> j \<in> b_id C ` set bs" for j
    using marked_coherent [OF r(2)] r(4,5) by blast
  moreover have "\<forall>b \<in> set bs. passes chk t (b_id C b)"
    using r(4,5) by blast
  moreover have "is_coherent t' i \<longleftrightarrow> (\<forall>b \<in> set path. is_coherent t (b_id C b) \<or> passes chk t (b_id C b))"
    if "get_blocks_on_path_from_root t i = Some (Some path)" for path
  proof -
    have "path = path_blocks ps"
      using that p(2) by (metis option.inject)
    then show ?thesis
      using r(6) by blast
  qed
  ultimately show ?thesis
    using r(1,3) by blast
qed

theorem try_update_coherency_correct_witness:
  "\<exists>t' bs. block_tree_try_update_coherency chain_crypto (\<lambda>_ _ _. Inr ()) chain_tree 1004 = Some (t', bs) \<and>
     block_tree_wf chain_crypto t' \<and> is_coherent t' 1004 \<and> \<not> is_coherent chain_tree 1004"
proof -
  have path: "get_blocks_on_path_from_root chain_tree 1004 = Some (Some [chain_block 3 2, chain_block 4 3])"
    by (simp add: get_blocks_on_path_from_root_def path_loop.simps chain_tree_def)
  have pass: "passes (\<lambda>_ _ _. Inr ()) chain_tree 1004"
    unfolding passes_def path by (intro exI [of _ "[chain_block 3 2]"] exI [of _ "chain_block 4 3"]) simp
  obtain t' bs where r: "block_tree_try_update_coherency chain_crypto (\<lambda>_ _ _. Inr ()) chain_tree 1004 = Some (t', bs)"
      "block_tree_wf chain_crypto t'"
    and c: "\<forall>path. get_blocks_on_path_from_root chain_tree 1004 = Some (Some path) \<longrightarrow>
       (is_coherent t' 1004 \<longleftrightarrow> (\<forall>b \<in> set path. is_coherent chain_tree (b_id chain_crypto b) \<or>
          passes (\<lambda>_ _ _. Inr ()) chain_tree (b_id chain_crypto b)))"
    using try_update_coherency_correct [OF chain_tree_wf, of "\<lambda>_ _ _. Inr ()" 1004] by blast
  have "is_coherent t' 1004"
    using c path pass chain_tree_facts(3) by simp
  moreover have "\<not> is_coherent chain_tree 1004"
    by (simp add: is_coherent_def chain_tree_entries)
  ultimately show ?thesis
    using r by blast
qed


section \<open>The search for the highest committable QC\<close>

text \<open>\<open>descends t j i\<close>: block \<open>i\<close> is \<open>j\<close> or extends it.\<close>

inductive descends :: "('s, 'e) block_tree \<Rightarrow> block_id \<Rightarrow> block_id \<Rightarrow> bool" for t j where
  descends_refl: "entry_of t j = Some e \<Longrightarrow> descends t j j"
| descends_step: "\<lbrakk>descends t j i; entry_of t c = Some e; b_parent_id (te_block e) = i\<rbrakk> \<Longrightarrow> descends t j c"

lemma descends_entry: "descends t j i \<Longrightarrow> \<exists>e. entry_of t i = Some e"
  by (induction rule: descends.induct) auto

lemma descends_child:
  assumes wf: "block_tree_wf C t" and e: "entry_of t j = Some e" and "descends t j i" and "i \<noteq> j"
  shows "\<exists>c \<in> set (te_children e). descends t c i"
  using assms(3,4)
proof (induction rule: descends.induct)
  case (descends_step i c e')
  show ?case
  proof (cases "i = j")
    case True
    then have "c \<in> set (te_children e)"
      using block_tree_wfD(1) [OF wf] e descends_step(2,3) unfolding tree_wf_def by blast
    then show ?thesis
      using descends_refl [OF descends_step(2)] by blast
  next
    case False
    then show ?thesis
      using descends_step descends.descends_step by blast
  qed
qed simp

lemma root_path_descends:
  assumes wf: "block_tree_wf C t" and "root_path (entry_of t) (root_id t) i ps"
  shows "\<exists>c \<in> set (blk_root_children t). descends t c i"
  using assms(2)
proof (induction rule: root_path.induct)
  case (path_base i e)
  then have "i \<in> set (blk_root_children t)"
    using block_tree_wfD(1) [OF wf] by (auto simp: tree_wf_def)
  then show ?case
    using descends_refl [OF path_base(1)] by blast
next
  case (path_step i e ps)
  then show ?case
    by (blast intro: descends_step)
qed

text \<open>The QC of a block, when it commits a coherent block below the root.\<close>

definition commits :: "('s, 'e) crypto \<Rightarrow> ('s, 'e) block_tree \<Rightarrow> 's quorum_certificate \<Rightarrow> bool" where
  "commits C t qc \<longleftrightarrow> committable C t qc = Some True"

definition rounds_u64 :: "('s, 'e) block_tree \<Rightarrow> bool" where
  "rounds_u64 t \<longleftrightarrow> (\<forall>i e. entry_of t i = Some e \<longrightarrow> b_round (te_block e) \<le> u64_max)"

lemma committable_returns:
  assumes wf: "block_tree_wf C t" and "rounds_u64 t"
  shows "committable C t qc = Some (commits C t qc)"
proof (cases "entry_of t (qc_block_id qc)")
  case None
  then show ?thesis
    by (simp add: committable_def commits_def)
next
  case (Some p)
  have "b_parent_round (te_block p) < b_round (te_block p)" "b_round (te_block p) \<le> u64_max"
    using tree_orderedD(1) [OF block_tree_wfD(2) [OF wf] Some] assms(2) Some unfolding rounds_u64_def by blast+
  then have "\<exists>c. committable C t qc = Some c"
    using Some tree_wf_entry(1) [OF wf Some]
    by (simp add: committable_def get_committable_id_def rust_assert_def round_add_def checked_add_u64_def)
  then show ?thesis
    by (auto simp: commits_def)
qed


abbreviation e_qc :: "('s, 'e) block_tree_entry \<Rightarrow> 's quorum_certificate" where
  "e_qc e \<equiv> h_qc (b_header (te_block e))"

lemma high_qc_loop_step:
  assumes "block_tree_wf C t" and "rounds_u64 t" and "entry_of t j = Some e"
  shows "high_qc_loop C t (j # rest) acc = high_qc_loop C t (rest @ te_children e)
    (if (\<forall>high. acc = Some high \<longrightarrow> qc_round high < qc_round (e_qc e)) \<and> commits C t (e_qc e) then Some (e_qc e) else acc)"
  by (subst high_qc_loop.simps) (auto simp: assms(3) committable_returns [OF assms(1,2)] not_less)

lemma high_qc_loop_correct:
  assumes "block_tree_wf C t" and "rounds_u64 t" and "\<And>j. j \<in> set queue \<Longrightarrow> \<exists>e. entry_of t j = Some e"
  shows "\<exists>r. high_qc_loop C t queue acc = Some r \<and>
    (r = acc \<or> (\<exists>i e. entry_of t i = Some e \<and> r = Some (e_qc e) \<and> commits C t (e_qc e))) \<and>
    (\<forall>high. acc = Some high \<longrightarrow> (\<exists>h. r = Some h \<and> qc_round high \<le> qc_round h)) \<and>
    (\<forall>j i e. j \<in> set queue \<longrightarrow> descends t j i \<longrightarrow> entry_of t i = Some e \<longrightarrow> commits C t (e_qc e) \<longrightarrow>
       (\<exists>h. r = Some h \<and> qc_round (e_qc e) \<le> qc_round h))"
  using assms(3)
proof (induction "queue_measure (round_bound t) t queue" arbitrary: queue acc rule: queue_induct)
  case less
  show ?case
  proof (cases queue)
    case Nil
    then show ?thesis
      by (subst high_qc_loop.simps) simp
  next
    case (Cons j rest)
    obtain e where e: "entry_of t j = Some e"
      using less.prems Cons by auto
    let ?acc = "if (\<forall>high. acc = Some high \<longrightarrow> qc_round high < qc_round (e_qc e)) \<and> commits C t (e_qc e)
      then Some (e_qc e) else acc"
    have smaller: "queue_measure (round_bound t) t (rest @ te_children e) < queue_measure (round_bound t) t queue"
      using queue_measure_children [OF assms(1) e entry_round_bound] Cons by simp
    have ready: "\<exists>e. entry_of t k = Some e" if "k \<in> set (rest @ te_children e)" for k
    proof (cases "k \<in> set rest")
      case True
      then show ?thesis
        using less.prems Cons by simp
    next
      case False
      then have "k \<in> set (te_children e)"
        using that by simp
      then show ?thesis
        by (rule tree_wf_child [OF assms(1) e]) blast
    qed
    have "\<exists>r. high_qc_loop C t (rest @ te_children e) ?acc = Some r \<and>
      (r = ?acc \<or> (\<exists>i e. entry_of t i = Some e \<and> r = Some (e_qc e) \<and> commits C t (e_qc e))) \<and>
      (\<forall>high. ?acc = Some high \<longrightarrow> (\<exists>h. r = Some h \<and> qc_round high \<le> qc_round h)) \<and>
      (\<forall>k i x. k \<in> set (rest @ te_children e) \<longrightarrow> descends t k i \<longrightarrow> entry_of t i = Some x \<longrightarrow> commits C t (e_qc x) \<longrightarrow>
         (\<exists>h. r = Some h \<and> qc_round (e_qc x) \<le> qc_round h))"
      by (rule less.hyps [OF smaller]) (erule ready)
    then obtain r where r: "high_qc_loop C t (rest @ te_children e) ?acc = Some r"
      and source: "r = ?acc \<or> (\<exists>i e. entry_of t i = Some e \<and> r = Some (e_qc e) \<and> commits C t (e_qc e))"
      and above: "\<forall>high. ?acc = Some high \<longrightarrow> (\<exists>h. r = Some h \<and> qc_round high \<le> qc_round h)"
      and covers: "\<And>k i x. k \<in> set (rest @ te_children e) \<Longrightarrow> descends t k i \<Longrightarrow> entry_of t i = Some x \<Longrightarrow>
        commits C t (e_qc x) \<Longrightarrow> \<exists>h. r = Some h \<and> qc_round (e_qc x) \<le> qc_round h"
      by (elim exE conjE) (rule that, blast+)
    have acc: "\<exists>h. r = Some h \<and> qc_round high \<le> qc_round h" if high: "acc = Some high" for high
    proof -
      obtain a where "?acc = Some a" "qc_round high \<le> qc_round a"
        using high by (cases "commits C t (e_qc e)"; cases "qc_round high < qc_round (e_qc e)") auto
      then show ?thesis
        using above by (meson le_trans)
    qed
    have self: "\<exists>h. r = Some h \<and> qc_round (e_qc e) \<le> qc_round h" if c: "commits C t (e_qc e)"
    proof (cases "\<forall>high. acc = Some high \<longrightarrow> qc_round high < qc_round (e_qc e)")
      case True
      then show ?thesis
        using above c by simp
    next
      case False
      then obtain high where high: "acc = Some high" "qc_round (e_qc e) \<le> qc_round high"
        by (auto simp: not_less)
      obtain h where "r = Some h" "qc_round high \<le> qc_round h"
        using acc [OF high(1)] by blast
      then show ?thesis
        using high(2) by simp
    qed
    have "\<exists>h. r = Some h \<and> qc_round (e_qc x) \<le> qc_round h"
      if k: "k \<in> set queue" "descends t k i" "entry_of t i = Some x" "commits C t (e_qc x)" for k i x
    proof (cases "k = j")
      case True
      show ?thesis
      proof (cases "i = j")
        case True
        then show ?thesis
          using self k(3,4) e by simp
      next
        case False
        then obtain c where "c \<in> set (te_children e)" "descends t c i"
          using descends_child [OF assms(1) e] k(2) \<open>k = j\<close> by blast
        then show ?thesis
          using covers [of c i x] k(3,4) by simp
      qed
    next
      case False
      then show ?thesis
        using covers [of k i x] k Cons by simp
    qed
    moreover have "r = acc \<or> (\<exists>i e. entry_of t i = Some e \<and> r = Some (e_qc e) \<and> commits C t (e_qc e))"
      using source e by (cases "(\<forall>high. acc = Some high \<longrightarrow> qc_round high < qc_round (e_qc e)) \<and> commits C t (e_qc e)") auto
    moreover have "high_qc_loop C t queue acc = Some r"
      using r high_qc_loop_step [OF assms(1,2) e] Cons by simp
    ultimately show ?thesis
      using acc by blast
  qed
qed


text \<open>
  C11. The highest committable QC. On a well-formed tree \<open>get_high_committable_qc\<close> returns without a
  panic. A QC it returns is the QC of a block in the tree, its parent block and grandparent have
  consecutive rounds, and the grandparent, the block to commit, is coherent and not the root; and no
  block connected to the root has a committable QC of a higher round. It returns none only when no
  connected block has a committable QC.
\<close>

theorem get_high_committable_qc_correct:
  fixes C :: "('s, 'e) crypto"
  assumes "block_tree_wf C t" and "rounds_u64 t"
  shows "\<exists>r. get_high_committable_qc C t = Some r \<and>
    (\<forall>qc. r = Some qc \<longrightarrow>
       (\<exists>i b p. get_block t i = Some b \<and> qc = h_qc (b_header b) \<and> get_block t (qc_block_id qc) = Some p \<and>
          qc_round qc = b_parent_round p + 1 \<and> is_coherent t (b_parent_id p) \<and> b_parent_id p \<noteq> root_id t)) \<and>
    (\<forall>i path b. get_blocks_on_path_from_root t i = Some (Some path) \<longrightarrow> get_block t i = Some b \<longrightarrow>
       commits C t (h_qc (b_header b)) \<longrightarrow> (\<exists>h. r = Some h \<and> b_parent_round b \<le> qc_round h))"
proof -
  have "\<exists>e. entry_of t j = Some e" if "j \<in> set (blk_root_children t)" for j
    using block_tree_wfD(1) [OF assms(1)] that by (auto simp: tree_wf_def)
  note kids = this
  have "\<exists>r. high_qc_loop C t (blk_root_children t) None = Some r \<and>
    (r = None \<or> (\<exists>i e. entry_of t i = Some e \<and> r = Some (e_qc e) \<and> commits C t (e_qc e))) \<and>
    (\<forall>high. None = (Some high :: 's quorum_certificate option) \<longrightarrow> (\<exists>h. r = Some h \<and> qc_round high \<le> qc_round h)) \<and>
    (\<forall>j i e. j \<in> set (blk_root_children t) \<longrightarrow> descends t j i \<longrightarrow> entry_of t i = Some e \<longrightarrow> commits C t (e_qc e) \<longrightarrow>
       (\<exists>h. r = Some h \<and> qc_round (e_qc e) \<le> qc_round h))"
    by (rule high_qc_loop_correct [OF assms]) (rule kids)
  then obtain r where r: "high_qc_loop C t (blk_root_children t) None = Some r"
    and source: "r = None \<or> (\<exists>i e. entry_of t i = Some e \<and> r = Some (e_qc e) \<and> commits C t (e_qc e))"
    and covers: "\<forall>j i e. j \<in> set (blk_root_children t) \<longrightarrow> descends t j i \<longrightarrow> entry_of t i = Some e \<longrightarrow>
      commits C t (e_qc e) \<longrightarrow> (\<exists>h. r = Some h \<and> qc_round (e_qc e) \<le> qc_round h)"
    by (elim exE conjE) (rule that)
  have "\<exists>i b p. get_block t i = Some b \<and> qc = h_qc (b_header b) \<and> get_block t (qc_block_id qc) = Some p \<and>
      qc_round qc = b_parent_round p + 1 \<and> is_coherent t (b_parent_id p) \<and> b_parent_id p \<noteq> root_id t"
    if qc: "r = Some qc" for qc
  proof -
    obtain i e where e: "entry_of t i = Some e" "qc = e_qc e" "committable C t qc = Some True"
      using source qc unfolding commits_def by auto
    then obtain p where "entry_of t (qc_block_id qc) = Some p" "qc_round qc = b_parent_round (te_block p) + 1"
        "is_coherent t (b_parent_id (te_block p))" "b_parent_id (te_block p) \<noteq> root_id t"
      by (auto simp: committable_def get_committable_id_def get_parent_id_def round_add_def checked_add_u64_def
          rust_assert_def split: option.splits if_splits)
    then show ?thesis
      using e(1,2) by (auto simp: get_block_def)
  qed
  moreover have "\<exists>h. r = Some h \<and> b_parent_round b \<le> qc_round h"
    if i: "get_blocks_on_path_from_root t i = Some (Some path)" "get_block t i = Some b" "commits C t (h_qc (b_header b))"
    for i path b
  proof -
    obtain e where e: "entry_of t i = Some e" "te_block e = b"
      using i(2) by (auto simp: get_block_def)
    have "i \<noteq> root_id t"
      using tree_wf_entry(2) [OF assms(1) e(1)] .
    then obtain ps where "root_path (entry_of t) (root_id t) i ps"
      using path_loop_ends [OF block_tree_wfD(2) [OF assms(1)], of i "[]"] i(1)
      by (auto simp: get_blocks_on_path_from_root_def)
    then obtain c where "c \<in> set (blk_root_children t)" "descends t c i"
      using root_path_descends [OF assms(1)] by blast
    then show ?thesis
      using covers [rule_format, of c i e] e i(3) by simp
  qed
  ultimately show ?thesis
    using r unfolding get_high_committable_qc_def by blast
qed


text \<open>A chain of three blocks on the root: the QC of the third commits the first.\<close>

definition chain_entry :: "round \<Rightarrow> bool \<Rightarrow> block_id list \<Rightarrow> (unit, unit) block_tree_entry" where
  "chain_entry r c kids = \<lparr>te_block = chain_block r (r - 1), te_coherent = c, te_children = kids\<rparr>"

definition long_tree :: "(unit, unit) block_tree" where
  "long_tree =
     \<lparr>blk_root = \<lparr>ri_round = 2, ri_seq_num = 2, ri_epoch = 3, ri_block_id = 1002, ri_timestamp_ns = 0\<rparr>,
      blk_root_children = [1003],
      blk_tree = \<lparr>tr_tree = [(1003, chain_entry 3 True [1004]), (1004, chain_entry 4 True [1005]), (1005, chain_entry 5 False [])],
                  tr_payloads = [(3, \<lparr>bi_body = (), bi_active_blocks = {1003}\<rparr>), (4, \<lparr>bi_body = (), bi_active_blocks = {1004}\<rparr>),
                    (5, \<lparr>bi_body = (), bi_active_blocks = {1005}\<rparr>)]\<rparr>\<rparr>"

lemma chain_entry_simps [simp]:
  "te_block (chain_entry r c kids) = chain_block r (r - 1)" "te_coherent (chain_entry r c kids) = c"
  "te_children (chain_entry r c kids) = kids"
  by (simp_all add: chain_entry_def)

lemma long_tree_entries:
  "entry_of long_tree i =
     (if i = 1003 then Some (chain_entry 3 True [1004]) else if i = 1004 then Some (chain_entry 4 True [1005])
      else if i = 1005 then Some (chain_entry 5 False []) else None)"
  by (simp add: long_tree_def)

lemma long_tree_root [simp]:
  "root_id long_tree = 1002" "ri_round (blk_root long_tree) = 2" "blk_root_children long_tree = [1003]"
  by (simp_all add: long_tree_def)

lemma long_tree_all:
  "(\<forall>i e. entry_of long_tree i = Some e \<longrightarrow> P i e) \<longleftrightarrow>
     P 1003 (chain_entry 3 True [1004]) \<and> P 1004 (chain_entry 4 True [1005]) \<and> P 1005 (chain_entry 5 False [])"
  (is "?all \<longleftrightarrow> ?each")
proof
  show ?each if ?all
    using that [rule_format, of 1003] that [rule_format, of 1004] that [rule_format, of 1005]
    by (simp add: long_tree_entries)
  show ?all if ?each
    using that by (simp add: long_tree_entries)
qed

lemma long_tree_children:
  "{j. \<exists>e. entry_of long_tree j = Some e \<and> b_parent_id (te_block e) = i} =
     (if i = 1002 then {1003} else if i = 1003 then {1004} else if i = 1004 then {1005} else {})"
  by (auto simp: long_tree_entries)

lemma long_tree_wf: "block_tree_wf chain_crypto long_tree"
proof -
  have "hm_wf (tr_tree (blk_tree long_tree))"
    by (simp add: long_tree_def hm_wf_def)
  then have "tree_wf chain_crypto long_tree"
    unfolding tree_wf_def long_tree_all long_tree_children by (simp add: long_tree_entries)
  moreover have "tree_ordered long_tree"
    unfolding tree_ordered_def long_tree_all by (simp add: long_tree_entries)
  moreover have "payloads_wf (blk_tree long_tree)"
    by (simp add: payloads_wf_def hm_wf_def long_tree_def)
  moreover have "coherent_closed long_tree"
    unfolding coherent_closed_def long_tree_all by (simp add: is_coherent_def long_tree_entries)
  ultimately show ?thesis
    by (simp add: block_tree_wf_def)
qed

theorem get_high_committable_qc_correct_witness:
  "\<exists>qc. get_high_committable_qc chain_crypto long_tree = Some (Some qc) \<and> 4 \<le> qc_round qc"
proof -
  have u64: "rounds_u64 long_tree"
    unfolding rounds_u64_def long_tree_all by simp
  have path: "get_blocks_on_path_from_root long_tree 1005 = Some (Some [chain_block 3 2, chain_block 4 3, chain_block 5 4])"
    by (simp add: get_blocks_on_path_from_root_def path_loop.simps [of long_tree] long_tree_entries)
  have block: "get_block long_tree 1005 = Some (chain_block 5 4)"
    by (simp add: get_block_def long_tree_entries)
  have "commits chain_crypto long_tree (h_qc (b_header (chain_block 5 4)))"
    by (simp add: commits_def committable_def long_tree_entries get_committable_id_def rust_assert_def round_add_def
        checked_add_u64_def get_parent_id_def is_coherent_def)
  then show ?thesis
    using get_high_committable_qc_correct [OF long_tree_wf u64] path block by fastforce
qed

end
