(* ===== verification/Timestamps.thy ===== *)
theory Timestamps
  imports Certificates
begin

text \<open>
  Block timestamps (\<open>monad-consensus-state/src/timestamp.rs\<close>): the timestamp a proposer gives a
  block and the bounds a voter checks, in 128-bit nanoseconds.
\<close>

section \<open>Data\<close>

record block_timestamp =
  bts_local_time_ns :: "128 word"
  bts_max_delta_ns :: "128 word"
  bts_latency_estimate_ns :: "128 word"

datatype timestamp_adjustment_direction = TA_Forward | TA_Backward

record timestamp_adjustment =
  ta_delta :: "128 word"
  ta_direction :: timestamp_adjustment_direction

section \<open>Operations\<close>

definition block_timestamp_new :: "128 word \<Rightarrow> 128 word \<Rightarrow> block_timestamp panics" where
  "block_timestamp_new max_delta_ns latency_estimate_ns = do {
     rust_assert (latency_estimate_ns > 0);
     Some \<lparr>bts_local_time_ns = 0, bts_max_delta_ns = max_delta_ns, bts_latency_estimate_ns = latency_estimate_ns\<rparr> }"

definition update_time :: "block_timestamp \<Rightarrow> 128 word \<Rightarrow> block_timestamp" where
  "update_time b time = b\<lparr>bts_local_time_ns := time\<rparr>"

definition get_current_time :: "block_timestamp \<Rightarrow> 128 word" where
  "get_current_time b = bts_local_time_ns b"

text \<open>The sum wraps, as \<open>u128\<close> addition does in a release build.\<close>

definition get_valid_block_timestamp :: "block_timestamp \<Rightarrow> 128 word \<Rightarrow> 128 word" where
  "get_valid_block_timestamp b prev_block_ts =
     (if bts_local_time_ns b \<le> prev_block_ts then prev_block_ts + 1 else bts_local_time_ns b)"

definition valid_bounds :: "block_timestamp \<Rightarrow> 128 word \<Rightarrow> 128 word \<Rightarrow> bool" where
  "valid_bounds b timestamp vote_delay_ns =
     (let max_delta_ns = saturating_add_word (bts_max_delta_ns b) vote_delay_ns;
          lower_bound = saturating_sub_word (bts_local_time_ns b) max_delta_ns;
          upper_bound = saturating_add_word (bts_local_time_ns b) max_delta_ns
      in lower_bound \<le> timestamp \<and> timestamp \<le> upper_bound)"

definition abs_diff_word :: "'w::len word \<Rightarrow> 'w word \<Rightarrow> 'w word" where
  "abs_diff_word a b = (if a \<le> b then b - a else a - b)"

definition valid_block_timestamp ::
  "block_timestamp \<Rightarrow> 128 word \<Rightarrow> 128 word \<Rightarrow> 128 word \<Rightarrow> bool \<Rightarrow> timestamp_adjustment option" where
  "valid_block_timestamp b prev_block_ts curr_block_ts vote_delay_ns is_reproposal =
     (if is_reproposal then
        (if curr_block_ts > prev_block_ts \<and> curr_block_ts < bts_local_time_ns b
         then Some \<lparr>ta_delta = 0, ta_direction = TA_Forward\<rparr> else None)
      else
        (case checked_sub_word curr_block_ts prev_block_ts of
           None \<Rightarrow> None
         | Some delta \<Rightarrow>
             if delta = 0 then None
             else if \<not> valid_bounds b curr_block_ts vote_delay_ns then None
             else
               (let adjustment = saturating_sub_word (abs_diff_word (bts_local_time_ns b) curr_block_ts)
                                   (bts_latency_estimate_ns b)
                in Some \<lparr>ta_delta = adjustment,
                         ta_direction = (if curr_block_ts > bts_local_time_ns b then TA_Forward else TA_Backward)\<rparr>)))"

section \<open>Lemmas\<close>

lemma unat_abs_diff: "unat (abs_diff_word a b) = (if unat a \<le> unat b then unat b - unat a else unat a - unat b)"
  by (auto simp: abs_diff_word_def word_le_nat_alt unat_sub)

lemma valid_bounds_nat:
  "valid_bounds b ts d \<longleftrightarrow>
     unat (bts_local_time_ns b) \<le> unat ts + min (unat (bts_max_delta_ns b) + unat d) (2 ^ 128 - 1) \<and>
     unat ts \<le> unat (bts_local_time_ns b) + min (unat (bts_max_delta_ns b) + unat d) (2 ^ 128 - 1)"
  using unsigned_less [of ts, where ?'a = nat]
  by (simp add: valid_bounds_def Let_def word_le_nat_alt unat_saturating_add unat_saturating_sub) linarith


end
