(* ===== verification/Consensus.thy ===== *)
theory Consensus
  imports Messages Pacemaker Block_Tree Timestamps
begin

text \<open>
  The consensus state machine (\<open>monad-consensus-state/src/lib.rs\<close> and \<open>command.rs\<close>): one handler
  per event, which composes the block tree, the vote and no-endorsement states, the safety module,
  the pacemaker and the epoch manager, and returns the commands it emits.

  \<open>node\<close> is the mutable state that a handler reaches: \<open>ConsensusState\<close>, and of
  \<open>ConsensusStateWrapper\<close> the epoch manager and the block policy. \<open>consensus_env\<close> is the rest of
  the wrapper: configuration, keys, clock, election, validators, and the operations of the block
  validator, the block policy and the message signature, which are parameters. The state backend is
  part of the policy's operations. Metrics and tracing are not modelled.
\<close>

section \<open>Data\<close>

datatype router_target =
    Broadcast epoch
  | Raptorcast epoch
  | PointToPoint node_id
  | TcpPointToPoint node_id

record ('s, 'e) verified_message =
  vd_author :: node_id
  vd_message :: "('s, 'e) consensus_message"
  vd_author_signature :: signature

record ('s, 'e) create_proposal =
  cpr_epoch :: epoch
  cpr_round :: round
  cpr_seq_num :: seq_num
  cpr_high_qc :: "'s quorum_certificate"
  cpr_round_signature :: signature
  cpr_last_round_tc :: "('s, 'e) timeout_certificate option"
  cpr_fresh_proposal_certificate :: "'s fresh_proposal_certificate option"
  cpr_tx_limit :: nat
  cpr_proposal_gas_limit :: nat
  cpr_proposal_byte_limit :: nat
  cpr_beneficiary :: nat
  cpr_timestamp_ns :: "128 word"
  cpr_extending_blocks :: "('s, 'e) consensus_full_block list"
  cpr_delayed_execution_results :: "'e list"

datatype ('s, 'e) consensus_command =
    CC_EnterRound epoch round
  | CC_Publish router_target "('s, 'e) verified_message"
  | CC_PublishToFullNodes epoch "('s, 'e) verified_message"
  | CC_Schedule round duration
  | CC_ScheduleReset
  | CC_CreateProposal "('s, 'e) create_proposal"
  | CC_CommitBlocks "('s, 'e) optimistic_commit"
  | CC_RequestSync block_range
  | CC_CancelSync block_range
  | CC_RequestStateSync "('s, 'e) consensus_block_header" "'s quorum_certificate"
  | CC_TimestampUpdate timestamp_adjustment
  | CC_ScheduleVote duration round

datatype outgoing_vote_status = TimerFired | VoteReady vote

record block_sync_request_status =
  bsr_range :: block_range
  bsr_cancel_round :: round

record consensus_config =
  cfg_execution_delay :: seq_num
  cfg_delta :: duration
  cfg_chain_config :: monad_chain_config
  cfg_live_to_statesync_threshold :: seq_num
  cfg_statesync_to_live_threshold :: seq_num
  cfg_start_execution_threshold :: seq_num
  cfg_timestamp_latency_estimate_ns :: "128 word"

record ('s, 'e, 'p) node =
  n_tree :: "('s, 'e) block_tree"
  n_vote_state :: vote_state
  n_no_endorsement_state :: "'s no_endorsement_state"
  n_scheduled_vote :: "outgoing_vote_status option"
  n_safety :: "('s, 'e) safety"
  n_pacemaker :: "('s, 'e) pacemaker"
  n_block_sync_requests :: "(block_id \<times> block_sync_request_status) list"
  n_epoch_manager :: epoch_manager
  n_block_policy :: 'p

record ('s, 'e, 'p) consensus_env =
  ce_crypto :: "('s, 'e) crypto"
  ce_pubkey :: "keypair \<Rightarrow> node_id"
  ce_sign :: "keypair \<Rightarrow> ('s, 'e) consensus_message \<Rightarrow> signature"
  ce_check_coherency ::
    "'p \<Rightarrow> ('s, 'e) consensus_full_block \<Rightarrow> ('s, 'e) consensus_full_block list \<Rightarrow> root_info \<Rightarrow> block_policy_error + unit"
  ce_update_committed_block :: "'p \<Rightarrow> ('s, 'e) consensus_full_block \<Rightarrow> 'p panics"
  ce_expected_execution_results ::
    "'p \<Rightarrow> seq_num \<Rightarrow> ('s, 'e) consensus_full_block list \<Rightarrow> state_backend_error + 'e list"
  ce_validate ::
    "('s, 'e) consensus_block_header \<Rightarrow> 'e \<Rightarrow> cert_pubkey option \<Rightarrow> nat \<Rightarrow> nat \<Rightarrow> nat \<Rightarrow> nat \<Rightarrow>
     block_validation_error + ('s, 'e) consensus_full_block"
  ce_val_epoch_map :: validators_epoch_mapping
  ce_election :: "round \<Rightarrow> (node_id \<times> stake) list \<Rightarrow> node_id panics"
  ce_version :: nat
  ce_block_timestamp :: block_timestamp
  ce_beneficiary :: nat
  ce_nodeid :: node_id
  ce_config :: consensus_config
  ce_keypair :: keypair
  ce_cert_keypair :: keypair

definition FUTURE_VOTE_BOUND :: round where
  "FUTURE_VOTE_BOUND = 10"

section \<open>Handlers and their composition\<close>

text \<open>A handler updates the node and emits commands, or panics.\<close>

type_synonym ('s, 'e, 'p) handler =
  "('s, 'e, 'p) node \<Rightarrow> (('s, 'e, 'p) node \<times> ('s, 'e) consensus_command list) panics"

definition h_skip :: "('s, 'e, 'p) handler" where
  "h_skip = (\<lambda>n. Some (n, []))"

definition h_panic :: "('s, 'e, 'p) handler" where
  "h_panic = (\<lambda>n. None)"

definition h_emit :: "('s, 'e) consensus_command list \<Rightarrow> ('s, 'e, 'p) handler" where
  "h_emit cmds = (\<lambda>n. Some (n, cmds))"

definition h_then :: "('s, 'e, 'p) handler \<Rightarrow> ('s, 'e, 'p) handler \<Rightarrow> ('s, 'e, 'p) handler" where
  "h_then m m' = (\<lambda>n. do { (n1, cmds1) \<leftarrow> m n; (n2, cmds2) \<leftarrow> m' n1; Some (n2, cmds1 @ cmds2) })"

definition h_get :: "(('s, 'e, 'p) node \<Rightarrow> ('s, 'e, 'p) handler) \<Rightarrow> ('s, 'e, 'p) handler" where
  "h_get f = (\<lambda>n. f n n)"

definition h_update :: "(('s, 'e, 'p) node \<Rightarrow> ('s, 'e, 'p) node) \<Rightarrow> ('s, 'e, 'p) handler" where
  "h_update f = (\<lambda>n. Some (f n, []))"

text \<open>A value that may be a panic, as of \<open>expect\<close>.\<close>

definition h_expect :: "'a panics \<Rightarrow> ('a \<Rightarrow> ('s, 'e, 'p) handler) \<Rightarrow> ('s, 'e, 'p) handler" where
  "h_expect x f = (\<lambda>n. do { a \<leftarrow> x; f a n })"

fun h_seq :: "('s, 'e, 'p) handler list \<Rightarrow> ('s, 'e, 'p) handler" where
  "h_seq [] = h_skip"
| "h_seq (m # ms) = h_then m (h_seq ms)"

section \<open>Commands\<close>

definition sign_message ::
  "('s, 'e, 'p) consensus_env \<Rightarrow> ('s, 'e) protocol_message \<Rightarrow> ('s, 'e) verified_message" where
  "sign_message E message =
     (let m = \<lparr>cm_version = ce_version E, cm_message = message\<rparr>
      in \<lparr>vd_author = ce_pubkey E (ce_keypair E), vd_message = m,
          vd_author_signature = ce_sign E (ce_keypair E) m\<rparr>)"

fun from_pacemaker_command ::
  "('s, 'e, 'p) consensus_env \<Rightarrow> ('s, 'e) pacemaker_command \<Rightarrow> ('s, 'e) consensus_command list" where
  "from_pacemaker_command E (PC_EnterRound e r high_certificate) =
     [CC_EnterRound e r,
      CC_PublishToFullNodes e
        (sign_message E (AdvanceRound_Msg \<lparr>ar_last_round_certificate = high_certificate\<rparr>))]"
| "from_pacemaker_command E (PC_PrepareTimeout ti high_extend last_round_certificate) =
     [CC_Publish (Broadcast (ti_epoch ti))
        (sign_message E (Timeout_Msg
           (timeout_new (ce_crypto E) (ce_cert_keypair E) ti high_extend last_round_certificate)))]"
| "from_pacemaker_command E (PC_Schedule r d) = [CC_Schedule r d]"
| "from_pacemaker_command E PC_ScheduleReset = [CC_ScheduleReset]"

section \<open>The consensus state\<close>

definition consensus_state_new ::
  "epoch_manager \<Rightarrow> consensus_config \<Rightarrow> root_info \<Rightarrow> ('s, 'e) round_certificate \<Rightarrow> 'p \<Rightarrow>
   ('s, 'e, 'p) node panics" where
  "consensus_state_new em config root high_certificate policy = do {
     pacemaker \<leftarrow> pacemaker_new (cfg_delta config) (cfg_chain_config config) (cfg_delta config) em high_certificate;
     current_round \<leftarrow> get_current_round pacemaker;
     s \<leftarrow> safety_new high_certificate None;
     Some \<lparr>n_tree = block_tree_new root,
           n_vote_state = vote_state_new current_round,
           n_no_endorsement_state = no_endorsement_state_new current_round,
           n_scheduled_vote = None,
           n_safety = s,
           n_pacemaker = pacemaker,
           n_block_sync_requests = [],
           n_epoch_manager = em,
           n_block_policy = policy\<rparr> }"

definition with_current_round :: "(round \<Rightarrow> ('s, 'e, 'p) handler) \<Rightarrow> ('s, 'e, 'p) handler" where
  "with_current_round f = h_get (\<lambda>n. h_expect (get_current_round (n_pacemaker n)) f)"

text \<open>The epoch of a round and its validators, both of which must be known.\<close>

definition with_validators ::
  "('s, 'e, 'p) consensus_env \<Rightarrow> round \<Rightarrow> (epoch \<Rightarrow> validator_set \<Rightarrow> ('s, 'e, 'p) handler) \<Rightarrow>
   ('s, 'e, 'p) handler" where
  "with_validators E r f = h_get (\<lambda>n.
     h_expect (get_epoch (n_epoch_manager n) r) (\<lambda>e.
     h_expect (get_val_set (ce_val_epoch_map E) e) (\<lambda>vs. f e vs)))"

definition request_blocks_if_missing_ancestor :: "('s, 'e, 'p) handler" where
  "request_blocks_if_missing_ancestor = h_get (\<lambda>n.
     let high_qc = round_certificate_qc (pm_high_certificate (n_pacemaker n))
     in h_expect (maybe_fill_path_to_root (n_tree n) high_qc) (\<lambda>missing.
       case missing of
         None \<Rightarrow> h_skip
       | Some missing_range \<Rightarrow> h_expect (rust_assert (br_num_blocks missing_range \<noteq> 0)) (\<lambda>_.
           if map_of (n_block_sync_requests n) (br_last_block_id missing_range) \<noteq> None then h_skip
           else h_seq
             [h_update (n_block_sync_requests_update (bt_insert (br_last_block_id missing_range)
                \<lparr>bsr_range = missing_range, bsr_cancel_round = qc_round high_qc\<rparr>)),
              h_emit [CC_RequestSync missing_range]])))"

definition request_tip_if_missing :: "('s, 'e) crypto \<Rightarrow> ('s, 'e, 'p) handler" where
  "request_tip_if_missing C = h_get (\<lambda>n.
     case pm_high_certificate (n_pacemaker n) of
       RC_Qc _ \<Rightarrow> h_skip
     | RC_Tc tc \<Rightarrow>
         (case tc_high_extend tc of
            HE_Qc _ \<Rightarrow> h_skip
          | HE_Tip tip \<Rightarrow>
              let tip_id = header_id C (tip_block_header tip);
                  missing_range = \<lparr>br_last_block_id = tip_id, br_num_blocks = 1\<rparr>
              in if get_block (n_tree n) tip_id \<noteq> None then h_skip
                 else if map_of (n_block_sync_requests n) tip_id \<noteq> None then h_skip
                 else h_seq
                   [h_update (n_block_sync_requests_update (bt_insert tip_id
                      \<lparr>bsr_range = missing_range, bsr_cancel_round = tip_round tip\<rparr>)),
                    h_emit [CC_RequestSync missing_range]]))"

section \<open>Committing blocks\<close>

text \<open>The loop over the blocks that \<open>prune\<close> returns.\<close>

fun commit_blocks ::
  "('s, 'e, 'p) consensus_env \<Rightarrow> ('s, 'e) consensus_full_block list \<Rightarrow> ('s, 'e, 'p) handler" where
  "commit_blocks E [] = h_skip"
| "commit_blocks E (block # blocks) = h_get (\<lambda>n.
     h_expect (ce_update_committed_block E (n_block_policy n) block) (\<lambda>policy.
     h_expect (schedule_epoch_start (n_epoch_manager n) (h_seq_num (b_header block)) (b_round block)) (\<lambda>em.
     h_seq [h_update (\<lambda>n. n\<lparr>n_block_policy := policy, n_epoch_manager := em\<rparr>),
            h_emit [CC_CommitBlocks (Finalized block)],
            commit_blocks E blocks])))"

definition try_commit ::
  "('s, 'e, 'p) consensus_env \<Rightarrow> 's quorum_certificate \<Rightarrow> ('s, 'e, 'p) handler" where
  "try_commit E qc = h_get (\<lambda>n.
     case get_block (n_tree n) (qc_block_id qc) of
       None \<Rightarrow> h_skip
     | Some qc_parent \<Rightarrow>
         h_expect (get_committable_id (ce_crypto E) qc (b_header qc_parent)) (\<lambda>committable_block_id.
           case committable_block_id of
             None \<Rightarrow> h_skip
           | Some i \<Rightarrow>
               if \<not> is_coherent (n_tree n) i then h_skip
               else h_expect (prune (ce_crypto E) (n_tree n) i) (\<lambda>(tree, blocks_to_commit).
                 h_seq [h_update (\<lambda>n. n\<lparr>n_tree := tree\<rparr>), commit_blocks E blocks_to_commit])))"

definition try_update_coherency ::
  "('s, 'e, 'p) consensus_env \<Rightarrow> block_id \<Rightarrow> ('s, 'e, 'p) handler" where
  "try_update_coherency E updated_block_id = h_seq
     [h_get (\<lambda>n.
        h_expect (block_tree_try_update_coherency (ce_crypto E) (ce_check_coherency E (n_block_policy n))
                    (n_tree n) updated_block_id) (\<lambda>(tree, newly_coherent).
          h_seq [h_update (\<lambda>n. n\<lparr>n_tree := tree\<rparr>),
                 h_emit (map (\<lambda>b. CC_CommitBlocks (Proposed b)) newly_coherent)])),
      h_get (\<lambda>n.
        h_expect (get_high_committable_qc (ce_crypto E) (n_tree n)) (\<lambda>high_commit_qc.
          case high_commit_qc of None \<Rightarrow> h_skip | Some qc \<Rightarrow> try_commit E qc))]"

definition maybe_statesync :: "('s, 'e, 'p) consensus_env \<Rightarrow> ('s, 'e, 'p) handler" where
  "maybe_statesync E = h_get (\<lambda>n.
     case get_seq_num_of_qc (n_tree n) (round_certificate_qc (pm_high_certificate (n_pacemaker n))) of
       None \<Rightarrow> h_skip
     | Some high_qc_seq_num \<Rightarrow>
         h_expect (seq_num_add (ri_seq_num (blk_root (n_tree n))) (cfg_live_to_statesync_threshold (ce_config E)))
           (\<lambda>bound. if bound > high_qc_seq_num then h_skip else h_panic))"

section \<open>Voting\<close>

definition with_leader ::
  "('s, 'e, 'p) consensus_env \<Rightarrow> round \<Rightarrow> (node_id \<Rightarrow> ('s, 'e, 'p) handler) \<Rightarrow> ('s, 'e, 'p) handler" where
  "with_leader E r f = with_validators E r (\<lambda>_ vs. h_expect (ce_election E r (validators vs)) f)"

abbreviation round_params :: "('s, 'e, 'p) consensus_env \<Rightarrow> round \<Rightarrow> chain_params" where
  "round_params E r \<equiv> chain_revision_params (get_chain_revision (cfg_chain_config (ce_config E)) r)"

definition send_vote_and_reset_timer ::
  "('s, 'e, 'p) consensus_env \<Rightarrow> round \<Rightarrow> vote \<Rightarrow> ('s, 'e, 'p) handler" where
  "send_vote_and_reset_timer E r v =
     (let message = sign_message E (Vote_Msg (vote_message_new (ce_crypto E) v (ce_cert_keypair E)))
      in h_expect (round_add r 1) (\<lambda>next_round.
         with_leader E next_round (\<lambda>next_leader.
         with_leader E r (\<lambda>current_leader.
         h_seq
           [h_emit [CC_Publish (PointToPoint next_leader) message],
            (if current_leader \<noteq> next_leader
             then h_emit [CC_Publish (PointToPoint current_leader) message] else h_skip),
            h_emit [CC_ScheduleVote (vote_pace (round_params E next_round)) next_round],
            h_update (n_scheduled_vote_update (\<lambda>_. None))]))))"

definition handle_vote_timer :: "('s, 'e, 'p) consensus_env \<Rightarrow> round \<Rightarrow> ('s, 'e, 'p) handler" where
  "handle_vote_timer E r = h_get (\<lambda>n.
     case n_scheduled_vote n of
       Some (VoteReady v) \<Rightarrow> send_vote_and_reset_timer E r v
     | _ \<Rightarrow> h_update (n_scheduled_vote_update (\<lambda>_. Some TimerFired)))"

text \<open>The end of \<open>try_vote\<close>: the vote \<open>v\<close> is sent at once or kept for the vote timer.\<close>

definition schedule_vote ::
  "('s, 'e, 'p) consensus_env \<Rightarrow> round \<Rightarrow> round \<Rightarrow> vote \<Rightarrow> ('s, 'e, 'p) handler" where
  "schedule_vote E proposal_round parent_block_round v =
     (let send_or_keep = h_expect (round_add parent_block_round 1) (\<lambda>r.
        if r \<noteq> proposal_round then send_vote_and_reset_timer E proposal_round v
        else h_update (n_scheduled_vote_update (\<lambda>_. Some (VoteReady v))))
      in h_get (\<lambda>n.
        case n_scheduled_vote n of
          Some TimerFired \<Rightarrow> send_vote_and_reset_timer E proposal_round v
        | Some (VoteReady scheduled) \<Rightarrow> if v_round scheduled \<ge> v_round v then h_panic else send_or_keep
        | None \<Rightarrow> send_or_keep))"

definition tc_tip_id :: "('s, 'e) crypto \<Rightarrow> ('s, 'e) timeout_certificate \<Rightarrow> block_id option" where
  "tc_tip_id C tc =
     (case tc_high_extend tc of HE_Qc _ \<Rightarrow> None | HE_Tip tip \<Rightarrow> Some (header_id C (tip_block_header tip)))"

definition try_vote ::
  "('s, 'e, 'p) consensus_env \<Rightarrow> ('s, 'e) timeout_certificate option \<Rightarrow> ('s, 'e) consensus_tip \<Rightarrow>
   ('s, 'e, 'p) handler" where
  "try_vote E last_round_tc tip = with_current_round (\<lambda>proposal_round. h_get (\<lambda>n.
     let header = tip_block_header tip;
         tip_id = header_id (ce_crypto E) header
     in case (get_timestamp_of_qc (n_tree n) (h_qc header), get_block_round_of_qc (n_tree n) (h_qc header)) of
          (Some parent_timestamp, Some parent_block_round) \<Rightarrow>
            (let is_reproposal = (proposal_round \<noteq> h_block_round header);
                 last_round_tc_tip = Option.bind last_round_tc (tc_tip_id (ce_crypto E))
             in if valid_block_timestamp (ce_block_timestamp E) parent_timestamp (h_timestamp_ns header)
                     (of_nat (vote_pace (round_params E proposal_round))) is_reproposal = None then h_skip
                else if \<not> is_coherent (n_tree n) tip_id then h_skip
                else if \<not> is_safe_to_vote (n_safety n) proposal_round last_round_tc_tip then h_skip
                else h_expect (safety_vote (n_safety n) proposal_round last_round_tc_tip tip) (\<lambda>s.
                  h_seq
                    [h_update (\<lambda>n. n\<lparr>n_safety := s\<rparr>),
                     schedule_vote E proposal_round parent_block_round
                       \<lparr>v_id = tip_id, v_round = proposal_round,
                        v_epoch = pm_current_epoch (n_pacemaker n)\<rparr>]))
        | _ \<Rightarrow> h_skip))"

section \<open>Proposing\<close>

text \<open>What the next proposal extends: the high certificate's tip or QC, with the certificates it must carry.\<close>

definition proposal_basis ::
  "('s, 'e, 'p) node \<Rightarrow> round \<Rightarrow>
   ('s, 'e) high_extend \<times> 's fresh_proposal_certificate option \<times> ('s, 'e) timeout_certificate option" where
  "proposal_basis n r =
     (case pm_high_certificate (n_pacemaker n) of
        RC_Tc tc \<Rightarrow>
          (case get_nec (n_no_endorsement_state n) r of
             Some nec \<Rightarrow> (HE_Qc (high_extend_qc (tc_high_extend tc)), Some (Nec nec), Some tc)
           | None \<Rightarrow>
               (case tc_high_extend tc of
                  HE_Tip tip \<Rightarrow> (HE_Tip tip, None, Some tc)
                | HE_Qc qc \<Rightarrow>
                    (HE_Qc qc,
                     Some (NoTip \<lparr>nt_epoch = tc_epoch tc, nt_round = tc_round tc,
                                  nt_tip_rounds = tc_tip_rounds tc, nt_high_qc = qc\<rparr>),
                     Some tc)))
      | RC_Qc qc \<Rightarrow> (HE_Qc qc, None, None))"

definition repropose ::
  "('s, 'e, 'p) consensus_env \<Rightarrow> round \<Rightarrow> ('s, 'e) consensus_tip \<Rightarrow> ('s, 'e) timeout_certificate option \<Rightarrow>
   ('s, 'e, 'p) handler" where
  "repropose E r tip last_round_tc =
     (let tip_id = header_id (ce_crypto E) (tip_block_header tip)
      in h_seq
        [try_update_coherency E tip_id,
         with_current_round (\<lambda>current_round. h_get (\<lambda>n.
           let current_epoch = pm_current_epoch (n_pacemaker n)
           in if \<not> is_coherent (n_tree n) tip_id \<or>
                 \<not> h_timestamp_ns (tip_block_header tip) < get_current_time (ce_block_timestamp E)
              then
                (if \<not> is_safe_to_recovery_request (n_safety n) r then h_skip
                 else h_expect (safety_recovery_request (n_safety n) r) (\<lambda>s.
                   h_expect last_round_tc (\<lambda>tc.
                   h_seq
                     [h_update (\<lambda>n. n\<lparr>n_safety := s\<rparr>),
                      h_emit [CC_Publish (Broadcast current_epoch)
                        (sign_message E (RoundRecovery_Msg
                           \<lparr>rr_round = current_round, rr_epoch = current_epoch, rr_tc = tc\<rparr>))]])))
              else h_expect (safety_propose (n_safety n) r) (\<lambda>s.
                h_expect (get_block (n_tree n) tip_id) (\<lambda>block.
                h_seq
                  [h_update (\<lambda>n. n\<lparr>n_safety := s\<rparr>),
                   h_emit [CC_Publish (Raptorcast current_epoch)
                     (sign_message E (Proposal_Msg
                        \<lparr>p_proposal_round = current_round, p_proposal_epoch = current_epoch, p_tip = tip,
                         p_block_body = b_body block, p_last_round_tc = last_round_tc\<rparr>))]]))))])"

definition propose_fresh ::
  "('s, 'e, 'p) consensus_env \<Rightarrow> epoch \<Rightarrow> round \<Rightarrow> 's quorum_certificate \<Rightarrow>
   's fresh_proposal_certificate option \<Rightarrow> ('s, 'e) timeout_certificate option \<Rightarrow> ('s, 'e, 'p) handler" where
  "propose_fresh E e r qc fresh_proposal_certificate last_round_tc = h_seq
     [try_update_coherency E (qc_block_id qc),
      h_get (\<lambda>n.
        if \<not> is_coherent (n_tree n) (qc_block_id qc) then h_skip
        else
          h_expect (get_blocks_on_path_from_root (n_tree n) (qc_block_id qc)) (\<lambda>path.
          h_expect path (\<lambda>pending_blocktree_blocks.
          let root = blk_root (n_tree n);
              (parent_seq_num, parent_timestamp) =
                (if pending_blocktree_blocks = [] then (ri_seq_num root, ri_timestamp_ns root)
                 else let extending_block = b_header (last pending_blocktree_blocks)
                      in (h_seq_num extending_block, h_timestamp_ns extending_block))
          in h_expect (seq_num_add parent_seq_num 1) (\<lambda>try_propose_seq_num.
             case ce_expected_execution_results E (n_block_policy n) try_propose_seq_num pending_blocktree_blocks of
               Inl _ \<Rightarrow> h_skip
             | Inr delayed_execution_results \<Rightarrow>
                 h_expect (safety_propose (n_safety n) r) (\<lambda>s.
                 h_seq
                   [h_update (\<lambda>n. n\<lparr>n_safety := s\<rparr>),
                    h_emit [CC_CreateProposal
                      \<lparr>cpr_epoch = e, cpr_round = r, cpr_seq_num = try_propose_seq_num, cpr_high_qc = qc,
                       cpr_round_signature = round_signature_new (ce_crypto E) r (ce_cert_keypair E),
                       cpr_last_round_tc = last_round_tc,
                       cpr_fresh_proposal_certificate = fresh_proposal_certificate,
                       cpr_tx_limit = tx_limit (round_params E r),
                       cpr_proposal_gas_limit = proposal_gas_limit (round_params E r),
                       cpr_proposal_byte_limit = proposal_byte_limit (round_params E r),
                       cpr_beneficiary = ce_beneficiary E,
                       cpr_timestamp_ns = get_valid_block_timestamp (ce_block_timestamp E) parent_timestamp,
                       cpr_extending_blocks = pending_blocktree_blocks,
                       cpr_delayed_execution_results = delayed_execution_results\<rparr>]])))))]"

definition try_propose :: "('s, 'e, 'p) consensus_env \<Rightarrow> ('s, 'e, 'p) handler" where
  "try_propose E = with_current_round (\<lambda>r.
     with_validators E r (\<lambda>e vs.
     h_expect (ce_election E r (validators vs)) (\<lambda>leader.
     if ce_nodeid E \<noteq> leader then h_skip
     else h_seq
       [request_tip_if_missing (ce_crypto E),
        h_get (\<lambda>n.
          if \<not> is_safe_to_propose (n_safety n) r then h_skip
          else case proposal_basis n r of
            (HE_Tip tip, _, last_round_tc) \<Rightarrow> repropose E r tip last_round_tc
          | (HE_Qc qc, fresh_proposal_certificate, last_round_tc) \<Rightarrow>
              propose_fresh E e r qc fresh_proposal_certificate last_round_tc)])))"

section \<open>Processing certificates\<close>

text \<open>A call of the pacemaker that returns its new state, the safety module's, and commands.\<close>

definition run_pacemaker ::
  "('s, 'e, 'p) consensus_env \<Rightarrow>
   (('s, 'e, 'p) node \<Rightarrow> (('s, 'e) pacemaker \<times> ('s, 'e) safety \<times> ('s, 'e) pacemaker_command list) panics) \<Rightarrow>
   ('s, 'e, 'p) handler" where
  "run_pacemaker E f = h_get (\<lambda>n. h_expect (f n) (\<lambda>(pm, s, cmds).
     h_seq [h_update (\<lambda>n. n\<lparr>n_pacemaker := pm, n_safety := s\<rparr>),
            h_emit (concat (map (from_pacemaker_command E) cmds))]))"

abbreviation pacemaker_certificate ::
  "('s, 'e, 'p) consensus_env \<Rightarrow> ('s, 'e) round_certificate \<Rightarrow> ('s, 'e, 'p) handler" where
  "pacemaker_certificate E cert \<equiv> run_pacemaker E (\<lambda>n.
     pacemaker_process_certificate (n_pacemaker n) (n_epoch_manager n) (n_safety n) cert)"

definition cancel_obsolete_requests :: "('s, 'e, 'p) handler" where
  "cancel_obsolete_requests = h_get (\<lambda>n.
     let to_cancel = filter (\<lambda>(_, status). bsr_cancel_round status \<le> ri_round (blk_root (n_tree n)))
                       (n_block_sync_requests n)
     in h_seq
       [h_update (n_block_sync_requests_update (fold (\<lambda>(i, _). bt_remove i) to_cancel)),
        h_emit (map (\<lambda>(_, status). CC_CancelSync (bsr_range status)) to_cancel)])"

definition start_new_round :: "('s, 'e, 'p) handler" where
  "start_new_round = with_current_round (\<lambda>r. h_update (\<lambda>n.
     n\<lparr>n_vote_state := vote_state_start_new_round (n_vote_state n) r,
       n_no_endorsement_state := no_endorsement_state_start_new_round (n_no_endorsement_state n) r\<rparr>))"

definition process_qc ::
  "('s, 'e, 'p) consensus_env \<Rightarrow> 's quorum_certificate \<Rightarrow> ('s, 'e, 'p) handler" where
  "process_qc E qc = with_current_round (\<lambda>r.
     if qc_round qc < r then h_skip
     else h_seq
       [try_commit E qc,
        cancel_obsolete_requests,
        maybe_statesync E,
        pacemaker_certificate E (RC_Qc qc),
        request_blocks_if_missing_ancestor,
        start_new_round,
        try_propose E])"

definition process_tc ::
  "('s, 'e, 'p) consensus_env \<Rightarrow> ('s, 'e) timeout_certificate \<Rightarrow> ('s, 'e, 'p) handler" where
  "process_tc E tc = with_current_round (\<lambda>r.
     if tc_round tc < r then h_skip
     else h_seq [pacemaker_certificate E (RC_Tc tc), try_propose E])"

definition get_checkpoint_epoch ::
  "('s, 'e, 'p) consensus_env \<Rightarrow> ('s, 'e, 'p) node \<Rightarrow> epoch \<Rightarrow> locked_epoch option" where
  "get_checkpoint_epoch E n e = do {
     _ \<leftarrow> get_val_set (ce_val_epoch_map E) e;
     r \<leftarrow> map_of (epoch_starts (n_epoch_manager n)) e;
     Some \<lparr>le_epoch = e, le_round = r\<rparr> }"

definition make_checkpoint ::
  "('s, 'e, 'p) consensus_env \<Rightarrow> ('s, 'e, 'p) node \<Rightarrow> ('s, 'e) checkpoint panics" where
  "make_checkpoint E n = do {
     let base_epoch = ri_epoch (blk_root (n_tree n));
     base \<leftarrow> get_checkpoint_epoch E n base_epoch;
     next_epoch \<leftarrow> epoch_add base_epoch 1;
     Some \<lparr>cp_root = root_id (n_tree n),
           cp_high_certificate = pm_high_certificate (n_pacemaker n),
           cp_validator_sets = base # (case get_checkpoint_epoch E n next_epoch of None \<Rightarrow> [] | Some e \<Rightarrow> [e])\<rparr> }"

section \<open>Adding blocks\<close>

definition validate_block ::
  "('s, 'e, 'p) consensus_env \<Rightarrow> ('s, 'e, 'p) node \<Rightarrow> ('s, 'e) consensus_block_header \<Rightarrow> 'e \<Rightarrow>
   ('s, 'e) consensus_full_block option panics" where
  "validate_block E n header body =
     (case get_block (n_tree n) (header_id (ce_crypto E) header) of
        Some validated \<Rightarrow>
          Some (if b_body_id validated \<noteq> body_id (ce_crypto E) body then None else Some validated)
      | None \<Rightarrow> do {
          e \<leftarrow> get_epoch (n_epoch_manager n) (h_block_round header);
          vs \<leftarrow> get_val_set (ce_val_epoch_map E) e;
          block_round_leader \<leftarrow> ce_election E (h_block_round header) (validators vs);
          if h_author header \<noteq> block_round_leader then Some None
          else do {
            let params = round_params E (h_block_round header);
            let timestamp_s = min (unat (h_timestamp_ns header) div 1000000000) u64_max;
            let execution_params = execution_revision_params
                  (get_execution_chain_revision (cfg_chain_config (ce_config E)) timestamp_s);
            vm \<leftarrow> get_cert_pubkeys (ce_val_epoch_map E) (h_epoch header);
            author_pubkey \<leftarrow> map_of vm (h_author header);
            Some (case ce_validate E header body (Some author_pubkey) (tx_limit params)
                         (proposal_gas_limit params) (proposal_byte_limit params)
                         (max_code_size execution_params) of
                    Inl _ \<Rightarrow> None
                  | Inr block \<Rightarrow> Some block) } })"

definition try_add_and_commit_blocktree ::
  "('s, 'e, 'p) consensus_env \<Rightarrow> ('s, 'e) consensus_full_block \<Rightarrow>
   (round \<times> ('s, 'e) timeout_certificate option \<times> ('s, 'e) consensus_tip) option \<Rightarrow> ('s, 'e, 'p) handler" where
  "try_add_and_commit_blocktree E block vote_on = h_seq
     [h_get (\<lambda>n. h_expect (block_tree_add (ce_crypto E) (n_tree n) block) (\<lambda>tree.
        h_update (\<lambda>n. n\<lparr>n_tree := tree\<rparr>))),
      try_update_coherency E (b_id (ce_crypto E) block),
      (case vote_on of
         None \<Rightarrow> h_skip
       | Some (proposal_round, last_round_tc, tip) \<Rightarrow> with_current_round (\<lambda>r.
           if proposal_round = r
           then h_expect (rust_assert (header_id (ce_crypto E) (tip_block_header tip) = b_id (ce_crypto E) block))
                  (\<lambda>_. try_vote E last_round_tc tip)
           else h_skip)),
      try_propose E,
      maybe_statesync E,
      request_blocks_if_missing_ancestor]"

section \<open>Events\<close>

definition handle_timeout_expiry :: "('s, 'e, 'p) consensus_env \<Rightarrow> round \<Rightarrow> ('s, 'e, 'p) handler" where
  "handle_timeout_expiry E timeout_round = with_current_round (\<lambda>r.
     if timeout_round < r then h_skip
     else run_pacemaker E (\<lambda>n. process_local_timeout (n_pacemaker n) (n_safety n)))"

definition handle_proposal_message ::
  "('s, 'e, 'p) consensus_env \<Rightarrow> node_id \<Rightarrow> ('s, 'e) proposal_message \<Rightarrow> ('s, 'e, 'p) handler" where
  "handle_proposal_message E author p =
     (let proposal_round = p_proposal_round p; header = tip_block_header (p_tip p)
      in h_get (\<lambda>n.
        if proposal_round \<le> ri_round (blk_root (n_tree n)) then h_skip
        else with_validators E proposal_round (\<lambda>_ vs.
          h_seq
            [process_qc E (h_qc header),
             (case p_last_round_tc p of None \<Rightarrow> h_skip | Some last_round_tc \<Rightarrow> process_tc E last_round_tc),
             with_current_round (\<lambda>pacemaker_round.
               h_expect (ce_election E proposal_round (validators vs)) (\<lambda>expected_leader.
               h_get (\<lambda>n.
                 if proposal_round > pacemaker_round \<or> author \<noteq> expected_leader then h_skip
                 else if \<not> is_safe_to_handle_proposal (n_safety n) proposal_round then h_skip
                 else h_expect (safety_handle_proposal (n_safety n) proposal_round) (\<lambda>s.
                   h_then (h_update (\<lambda>n. n\<lparr>n_safety := s\<rparr>))
                     (h_get (\<lambda>n. h_expect (validate_block E n header (p_block_body p)) (\<lambda>validated.
                        case validated of
                          None \<Rightarrow> h_skip
                        | Some block \<Rightarrow> try_add_and_commit_blocktree E block
                            (Some (proposal_round, p_last_round_tc p, p_tip p)))))))))])))"

definition handle_vote_message ::
  "('s, 'e, 'p) consensus_env \<Rightarrow> node_id \<Rightarrow> vote_message \<Rightarrow> ('s, 'e, 'p) handler" where
  "handle_vote_message E author vote_msg =
     (let vote_round = v_round (vmsg_vote vote_msg)
      in with_current_round (\<lambda>r.
        if vote_round < r then h_skip
        else h_expect (round_add r FUTURE_VOTE_BOUND) (\<lambda>bound.
        if vote_round > bound then h_skip
        else with_validators E vote_round (\<lambda>e vs.
          h_expect (get_cert_pubkeys (ce_val_epoch_map E) e) (\<lambda>vm.
          h_get (\<lambda>n.
          h_expect (process_vote (ce_crypto E) (n_vote_state n) author vote_msg vs vm) (\<lambda>(st, maybe_qc).
          h_then (h_update (\<lambda>n. n\<lparr>n_vote_state := st\<rparr>))
            (case maybe_qc of
               None \<Rightarrow> h_skip
             | Some qc \<Rightarrow> h_seq
                 [process_qc E qc,
                  try_propose E,
                  h_expect (ce_election E vote_round (validators vs)) (\<lambda>vote_round_leader.
                    if ce_nodeid E = vote_round_leader
                    then h_get (\<lambda>n. h_emit [CC_Publish (Broadcast (pm_current_epoch (n_pacemaker n)))
                      (sign_message E (AdvanceRound_Msg \<lparr>ar_last_round_certificate = RC_Qc qc\<rparr>))])
                    else h_skip)]))))))))"

definition handle_timeout_message ::
  "('s, 'e, 'p) consensus_env \<Rightarrow> node_id \<Rightarrow> ('s, 'e) timeout \<Rightarrow> ('s, 'e, 'p) handler" where
  "handle_timeout_message E author timeout =
     (let info = tm_tminfo timeout
      in with_current_round (\<lambda>r.
        if ti_round info < r then h_skip
        else with_validators E (ti_round info) (\<lambda>e vs.
          h_expect (get_cert_pubkeys (ce_val_epoch_map E) e) (\<lambda>vm.
          h_seq
            [process_qc E (high_extend_vote_qc (tm_high_extend timeout)),
             (case tm_high_extend timeout of
                HEV_Qc _ \<Rightarrow> h_skip
              | HEV_Tip tip vote_signature \<Rightarrow>
                  handle_vote_message E author
                    \<lparr>vmsg_vote = \<lparr>v_id = header_id (ce_crypto E) (tip_block_header tip),
                                  v_round = ti_round info, v_epoch = ti_epoch info\<rparr>,
                     vmsg_sig = vote_signature\<rparr>),
             (case tm_last_round_certificate timeout of
                Some (RC_Tc tc) \<Rightarrow> process_tc E tc
              | Some (RC_Qc qc) \<Rightarrow> process_qc E qc
              | None \<Rightarrow> h_skip),
             run_pacemaker E (\<lambda>n. process_remote_timeout (ce_crypto E) (n_pacemaker n) (n_epoch_manager n)
               vs vm (n_safety n) author timeout),
             try_propose E]))))"

definition handle_round_recovery_message ::
  "('s, 'e, 'p) consensus_env \<Rightarrow> node_id \<Rightarrow> ('s, 'e) round_recovery_message \<Rightarrow> ('s, 'e, 'p) handler" where
  "handle_round_recovery_message E author rr =
     with_validators E (rr_round rr) (\<lambda>e vs.
     h_then (process_tc E (rr_tc rr))
       (with_current_round (\<lambda>pacemaker_round.
        h_expect (ce_election E pacemaker_round (validators vs)) (\<lambda>expected_leader.
        if rr_round rr \<noteq> pacemaker_round \<or> author \<noteq> expected_leader then h_skip
        else case tc_high_extend (rr_tc rr) of
          HE_Qc _ \<Rightarrow> h_skip
        | HE_Tip tip \<Rightarrow> h_get (\<lambda>n.
            let header = tip_block_header tip; tip_id = header_id (ce_crypto E) header
            in if is_coherent (n_tree n) tip_id \<and>
                  h_timestamp_ns header < get_current_time (ce_block_timestamp E) then h_skip
               else if is_safe_to_no_endorse (n_safety n) (rr_round rr)
               then h_expect (safety_no_endorse (n_safety n) (rr_round rr) tip_id) (\<lambda>s.
                 h_seq
                   [h_update (\<lambda>n. n\<lparr>n_safety := s\<rparr>),
                    h_emit [CC_Publish (PointToPoint author)
                      (sign_message E (NoEndorsement_Msg (no_endorsement_message_new (ce_crypto E)
                         \<lparr>ne_epoch = e, ne_round = rr_round rr, ne_tip_qc_round = qc_round (h_qc header)\<rparr>
                         (ce_cert_keypair E))))]])
               else h_skip)))))"

definition handle_no_endorsement_message ::
  "('s, 'e, 'p) consensus_env \<Rightarrow> node_id \<Rightarrow> no_endorsement_message \<Rightarrow> ('s, 'e, 'p) handler" where
  "handle_no_endorsement_message E author msg =
     (let ne_r = ne_round (nemsg_msg msg)
      in with_current_round (\<lambda>r.
        if ne_r < r then h_skip
        else h_expect (round_add r FUTURE_VOTE_BOUND) (\<lambda>bound.
        if ne_r > bound then h_skip
        else with_validators E ne_r (\<lambda>e vs.
          h_expect (get_cert_pubkeys (ce_val_epoch_map E) e) (\<lambda>vm.
          h_get (\<lambda>n.
          h_expect (process_no_endorsement (ce_crypto E) (n_no_endorsement_state n) author msg vs vm)
            (\<lambda>(st, maybe_nec).
            h_then (h_update (\<lambda>n. n\<lparr>n_no_endorsement_state := st\<rparr>))
              (case maybe_nec of None \<Rightarrow> h_skip | Some _ \<Rightarrow> try_propose E))))))))"

definition handle_advance_round_message ::
  "('s, 'e, 'p) consensus_env \<Rightarrow> node_id \<Rightarrow> ('s, 'e) advance_round_message \<Rightarrow> ('s, 'e, 'p) handler" where
  "handle_advance_round_message E author msg =
     (case ar_last_round_certificate msg of RC_Tc tc \<Rightarrow> process_tc E tc | RC_Qc qc \<Rightarrow> process_qc E qc)"

text \<open>The loop of \<open>handle_block_sync\<close>: it skips a block not to insert and stops at an invalid one.\<close>

fun add_synced_blocks ::
  "('s, 'e, 'p) consensus_env \<Rightarrow> ('s, 'e) consensus_full_block list \<Rightarrow> ('s, 'e, 'p) handler" where
  "add_synced_blocks E [] = h_skip"
| "add_synced_blocks E (full_block # full_blocks) = h_get (\<lambda>n.
     if \<not> is_valid_to_insert (ce_crypto E) (n_tree n) (b_header full_block) then add_synced_blocks E full_blocks
     else h_expect (validate_block E n (b_header full_block) (b_body full_block)) (\<lambda>validated.
       case validated of
         None \<Rightarrow> h_skip
       | Some block \<Rightarrow>
           h_then (try_add_and_commit_blocktree E block None) (add_synced_blocks E full_blocks)))"

definition handle_block_sync ::
  "('s, 'e, 'p) consensus_env \<Rightarrow> block_range \<Rightarrow> ('s, 'e) consensus_full_block list \<Rightarrow> ('s, 'e, 'p) handler" where
  "handle_block_sync E block_range full_blocks = h_get (\<lambda>n.
     if map_of (n_block_sync_requests n) (br_last_block_id block_range) = None then h_skip
     else h_seq
       [add_synced_blocks E full_blocks,
        h_update (n_block_sync_requests_update (bt_remove (br_last_block_id block_range)))])"

section \<open>Upcoming leaders\<close>

fun leaders_of_rounds ::
  "('s, 'e, 'p) consensus_env \<Rightarrow> ('s, 'e, 'p) node \<Rightarrow> round list \<Rightarrow> (node_id \<times> round) list panics" where
  "leaders_of_rounds E n [] = Some []"
| "leaders_of_rounds E n (r # rs) = do {
     e \<leftarrow> get_epoch (n_epoch_manager n) r;
     vs \<leftarrow> get_val_set (ce_val_epoch_map E) e;
     leader \<leftarrow> ce_election E r (validators vs);
     pairs \<leftarrow> leaders_of_rounds E n rs;
     Some ((leader, r) # pairs) }"

text \<open>The range \<open>start..\<close> of \<open>u64\<close> is taken for \<open>num_rounds\<close> elements; a step past \<open>u64::MAX\<close> wraps.\<close>

definition compute_upcoming_leader_round_pairs ::
  "bool \<Rightarrow> nat \<Rightarrow> ('s, 'e, 'p) consensus_env \<Rightarrow> ('s, 'e, 'p) node \<Rightarrow> (node_id \<times> round) list panics" where
  "compute_upcoming_leader_round_pairs include_current_round num_rounds E n = do {
     r \<leftarrow> get_current_round (n_pacemaker n);
     leaders_of_rounds E n
       (map (\<lambda>k. (r + (if include_current_round then 0 else 1) + k) mod (u64_max + 1)) [0..<num_rounds]) }"

definition NUM_LEADERS_SELF_UPCOMING :: nat where
  "NUM_LEADERS_SELF_UPCOMING = 3"

definition NUM_LEADERS_FORWARD_TXS :: nat where
  "NUM_LEADERS_FORWARD_TXS = 3"

definition iter_upcoming_self_leader_rounds ::
  "('s, 'e, 'p) consensus_env \<Rightarrow> ('s, 'e, 'p) node \<Rightarrow> round list panics" where
  "iter_upcoming_self_leader_rounds E n = do {
     pairs \<leftarrow> compute_upcoming_leader_round_pairs True NUM_LEADERS_SELF_UPCOMING E n;
     Some (map snd (filter (\<lambda>(leader, _). leader = ce_nodeid E) pairs)) }"

definition iter_future_other_leaders ::
  "('s, 'e, 'p) consensus_env \<Rightarrow> ('s, 'e, 'p) node \<Rightarrow> node_id list panics" where
  "iter_future_other_leaders E n = do {
     pairs \<leftarrow> compute_upcoming_leader_round_pairs False NUM_LEADERS_FORWARD_TXS E n;
     Some (rev (remdups (rev (filter (\<lambda>leader. leader \<noteq> ce_nodeid E) (map fst pairs))))) }"

end
