(* ===== verification/Handler_Relations.thy ===== *)
theory Handler_Relations
  imports Consensus
begin

text \<open>
  Relations between the node before and after a handler and the commands it emits, for proofs about
  every handler at once. \<open>handler_relation\<close> is the contract of a relation that composes;
  \<open>node_relation\<close> adds that the elementary steps of the consensus state obey it, and from these
  every event handler does. \<open>node_run\<close> is a run of events, each with its own clock and validators.
\<close>

section \<open>Handlers that obey a relation\<close>

type_synonym ('s, 'e, 'p) relation =
  "('s, 'e, 'p) node \<Rightarrow> ('s, 'e, 'p) node \<Rightarrow> ('s, 'e) consensus_command list \<Rightarrow> bool"

definition obeys :: "('s, 'e, 'p) relation \<Rightarrow> ('s, 'e, 'p) handler \<Rightarrow> ('s, 'e, 'p) node \<Rightarrow> bool" where
  "obeys R m n \<longleftrightarrow> (\<forall>n' cmds. m n = Some (n', cmds) \<longrightarrow> R n n' cmds)"

lemmas handler_defs = h_skip_def h_panic_def h_emit_def h_then_def h_get_def h_update_def h_expect_def

lemma obeysD: "obeys R m n \<Longrightarrow> m n = Some (n', cmds) \<Longrightarrow> R n n' cmds"
  by (simp add: obeys_def)

lemma obeys_panic: "obeys R h_panic n"
  by (simp add: obeys_def h_panic_def)

lemma obeys_emit: "R n n cmds \<Longrightarrow> obeys R (h_emit cmds) n"
  by (simp add: obeys_def h_emit_def)

lemma obeys_update: "R n (f n) [] \<Longrightarrow> obeys R (h_update f) n"
  by (simp add: obeys_def h_update_def)

lemma obeys_get: "obeys R (f n) n \<Longrightarrow> obeys R (h_get f) n"
  by (simp add: obeys_def h_get_def)

lemma obeys_expect: "(\<And>a. x = Some a \<Longrightarrow> obeys R (f a) n) \<Longrightarrow> obeys R (h_expect x f) n"
  by (cases x) (simp_all add: obeys_def h_expect_def)

lemma obeys_if: "(P \<Longrightarrow> obeys R m n) \<Longrightarrow> (\<not> P \<Longrightarrow> obeys R m' n) \<Longrightarrow> obeys R (if P then m else m') n"
  by simp

lemma obeys_option:
  "(x = None \<Longrightarrow> obeys R m n) \<Longrightarrow> (\<And>a. x = Some a \<Longrightarrow> obeys R (f a) n) \<Longrightarrow>
   obeys R (case x of None \<Rightarrow> m | Some a \<Rightarrow> f a) n"
  by (cases x) simp_all

lemma obeys_prod:
  "(\<And>a b. x = (a, b) \<Longrightarrow> obeys R (f a b) n) \<Longrightarrow> obeys R (case x of (a, b) \<Rightarrow> f a b) n"
  by (cases x) simp

lemma obeys_sum:
  "(\<And>a. x = Inl a \<Longrightarrow> obeys R (f a) n) \<Longrightarrow> (\<And>b. x = Inr b \<Longrightarrow> obeys R (g b) n) \<Longrightarrow>
   obeys R (case x of Inl a \<Rightarrow> f a | Inr b \<Rightarrow> g b) n"
  by (cases x) simp_all

lemma obeys_high_extend:
  "(\<And>t. x = HE_Tip t \<Longrightarrow> obeys R (f t) n) \<Longrightarrow> (\<And>q. x = HE_Qc q \<Longrightarrow> obeys R (g q) n) \<Longrightarrow>
   obeys R (case x of HE_Tip t \<Rightarrow> f t | HE_Qc q \<Rightarrow> g q) n"
  by (cases x) simp_all

lemma obeys_high_extend_vote:
  "(\<And>t v. x = HEV_Tip t v \<Longrightarrow> obeys R (f t v) n) \<Longrightarrow> (\<And>q. x = HEV_Qc q \<Longrightarrow> obeys R (g q) n) \<Longrightarrow>
   obeys R (case x of HEV_Tip t v \<Rightarrow> f t v | HEV_Qc q \<Rightarrow> g q) n"
  by (cases x) simp_all

lemma obeys_round_certificate:
  "(\<And>q. x = RC_Qc q \<Longrightarrow> obeys R (f q) n) \<Longrightarrow> (\<And>t. x = RC_Tc t \<Longrightarrow> obeys R (g t) n) \<Longrightarrow>
   obeys R (case x of RC_Qc q \<Rightarrow> f q | RC_Tc t \<Rightarrow> g t) n"
  by (cases x) simp_all

lemma obeys_current_round:
  "(\<And>r. get_current_round (n_pacemaker n) = Some r \<Longrightarrow> obeys R (f r) n) \<Longrightarrow> obeys R (with_current_round f) n"
  unfolding with_current_round_def by (intro obeys_get obeys_expect)

lemma obeys_validators: "(\<And>e vs. obeys R (f e vs) n) \<Longrightarrow> obeys R (with_validators E r f) n"
  unfolding with_validators_def by (intro obeys_get obeys_expect)

lemma obeys_leader: "(\<And>l. obeys R (f l) n) \<Longrightarrow> obeys R (with_leader E r f) n"
  unfolding with_leader_def by (intro obeys_validators obeys_expect)

lemmas obeys_intros = obeys_panic obeys_get obeys_expect obeys_if obeys_option obeys_prod obeys_sum
  obeys_high_extend obeys_high_extend_vote obeys_round_certificate obeys_current_round
  obeys_validators obeys_leader

text \<open>An update followed by commands, as one step.\<close>

lemma obeys_update_emit: "R n (f n) cmds \<Longrightarrow> obeys R (h_seq [h_update f, h_emit cmds]) n"
  by (simp add: obeys_def handler_defs)

locale handler_relation =
  fixes R :: "('s, 'e, 'p) relation"
  assumes refl: "R n n []"
    and trans: "R n n1 cmds1 \<Longrightarrow> R n1 n2 cmds2 \<Longrightarrow> R n n2 (cmds1 @ cmds2)"
begin

lemma obeys_skip: "obeys R h_skip n"
  by (simp add: obeys_def h_skip_def refl)

lemma obeys_then:
  assumes "obeys R m n" and "\<And>n1 cmds. m n = Some (n1, cmds) \<Longrightarrow> obeys R m' n1"
  shows "obeys R (h_then m m') n"
  using assms by (fastforce simp: obeys_def h_then_def split: Option.bind_splits intro: trans)

lemma obeys_seq:
  "obeys R (h_seq []) n"
  "obeys R m n \<Longrightarrow> (\<And>n1 cmds. m n = Some (n1, cmds) \<Longrightarrow> obeys R (h_seq ms) n1) \<Longrightarrow> obeys R (h_seq (m # ms)) n"
  by (simp_all add: obeys_skip obeys_then)

lemmas obeys_rules = obeys_intros obeys_skip obeys_seq

end

section \<open>Handlers that only touch the chain\<close>

text \<open>What coherency updates and commits leave alone.\<close>

definition chain_only :: "('s, 'e, 'p) relation" where
  "chain_only n n' cmds \<longleftrightarrow>
     n_pacemaker n' = n_pacemaker n \<and> n_safety n' = n_safety n \<and> n_scheduled_vote n' = n_scheduled_vote n \<and>
     (\<forall>c \<in> set cmds. case c of CC_CommitBlocks _ \<Rightarrow> True | _ \<Rightarrow> False)"

interpretation co: handler_relation chain_only
  by unfold_locales (auto simp: chain_only_def)

lemma commit_blocks_chain_only: "obeys chain_only (commit_blocks E blocks) n"
  by (induction E blocks arbitrary: n rule: commit_blocks.induct)
     (auto simp: chain_only_def intro!: co.obeys_rules obeys_update obeys_emit simp del: h_seq.simps)

lemma try_commit_chain_only: "obeys chain_only (try_commit E qc) n"
  unfolding try_commit_def
  by (auto simp: chain_only_def intro!: co.obeys_rules obeys_update commit_blocks_chain_only
      simp del: h_seq.simps)

lemma try_update_coherency_chain_only: "obeys chain_only (try_update_coherency E i) n"
  unfolding try_update_coherency_def
  by (auto simp: chain_only_def intro!: co.obeys_rules obeys_update_emit try_commit_chain_only
      simp del: h_seq.simps)

text \<open>So the round of a reproposal or recovery is still the current one after a coherency update.\<close>

lemma coherency_round:
  assumes "try_update_coherency E i n = Some (n1, cmds)"
  shows "get_current_round (n_pacemaker n1) = get_current_round (n_pacemaker n)"
  using obeysD [OF try_update_coherency_chain_only assms] by (simp add: chain_only_def)

section \<open>Relations of the consensus state\<close>

text \<open>Commands that request or cancel blocks, and the broadcast of a certificate.\<close>

fun quiet :: "('s, 'e) consensus_command \<Rightarrow> bool" where
  "quiet (CC_RequestSync _) = True"
| "quiet (CC_CancelSync _) = True"
| "quiet (CC_Publish _ m) = (case cm_message (vd_message m) of AdvanceRound_Msg _ \<Rightarrow> True | _ \<Rightarrow> False)"
| "quiet _ = False"

locale node_relation = handler_relation R
  for R :: "('s, 'e, 'p) relation" +
  fixes E :: "('s, 'e, 'p) consensus_env"
  assumes quiet_cmds: "list_all quiet cmds \<Longrightarrow> R n n cmds"
    and requests: "R n (n_block_sync_requests_update f n) []"
    and collectors: "R n (n\<lparr>n_vote_state := st, n_no_endorsement_state := ne\<rparr>) []"
    and commit: "obeys R (try_commit E qc) n"
    and coherent: "block_tree_try_update_coherency (ce_crypto E) (ce_check_coherency E (n_block_policy n))
        (n_tree n) i = Some (t, bs) \<Longrightarrow> R n (n\<lparr>n_tree := t\<rparr>) (map (\<lambda>b. CC_CommitBlocks (Proposed b)) bs)"
    and add: "block_tree_add (ce_crypto E) (n_tree n) b = Some t \<Longrightarrow> R n (n\<lparr>n_tree := t\<rparr>) []"
    and certificate: "pacemaker_process_certificate (n_pacemaker n) (n_epoch_manager n) (n_safety n) cert =
        Some (pm, s, pcmds) \<Longrightarrow>
      R n (n\<lparr>n_pacemaker := pm, n_safety := s\<rparr>) (concat (map (from_pacemaker_command E) pcmds))"
    and local_timeout: "process_local_timeout (n_pacemaker n) (n_safety n) = Some (pm, s, pcmds) \<Longrightarrow>
      R n (n\<lparr>n_pacemaker := pm, n_safety := s\<rparr>) (concat (map (from_pacemaker_command E) pcmds))"
    and remote_timeout: "process_remote_timeout (ce_crypto E) (n_pacemaker n) (n_epoch_manager n) vs vm
        (n_safety n) author tm = Some (pm, s, pcmds) \<Longrightarrow>
      R n (n\<lparr>n_pacemaker := pm, n_safety := s\<rparr>) (concat (map (from_pacemaker_command E) pcmds))"
    and handled: "safety_handle_proposal (n_safety n) r = Some s \<Longrightarrow> R n (n\<lparr>n_safety := s\<rparr>) []"
    and vote: "obeys R (try_vote E tc tip) n"
    and timer: "obeys R (handle_vote_timer E r) n"
    and recovery: "safety_recovery_request (n_safety n) r = Some s \<Longrightarrow>
      R n (n\<lparr>n_safety := s\<rparr>) [CC_Publish target (sign_message E (RoundRecovery_Msg
        \<lparr>rr_round = r, rr_epoch = e, rr_tc = tc'\<rparr>))]"
    and reproposal: "safety_propose (n_safety n) r = Some s \<Longrightarrow>
      R n (n\<lparr>n_safety := s\<rparr>) [CC_Publish target (sign_message E (Proposal_Msg
        \<lparr>p_proposal_round = r, p_proposal_epoch = e, p_tip = tip, p_block_body = body, p_last_round_tc = lt\<rparr>))]"
    and creation: "safety_propose (n_safety n) (cpr_round c) = Some s \<Longrightarrow>
      R n (n\<lparr>n_safety := s\<rparr>) [CC_CreateProposal c]"
    and no_endorsement: "safety_no_endorse (n_safety n) r i = Some s \<Longrightarrow>
      R n (n\<lparr>n_safety := s\<rparr>) [CC_Publish target (sign_message E (NoEndorsement_Msg
        (no_endorsement_message_new (ce_crypto E) \<lparr>ne_epoch = e, ne_round = r, ne_tip_qc_round = q\<rparr> key)))]"
begin

lemma coherency: "obeys R (try_update_coherency E i) n"
  unfolding try_update_coherency_def
  by (intro obeys_rules obeys_update_emit coherent commit) simp

lemma requests_quiet: "list_all quiet cmds \<Longrightarrow> R n (n_block_sync_requests_update f n) cmds"
  using trans [OF requests quiet_cmds, of cmds] by simp

lemma request_blocks: "obeys R request_blocks_if_missing_ancestor n"
  unfolding request_blocks_if_missing_ancestor_def Let_def
  by (intro obeys_rules obeys_update_emit requests_quiet) simp

lemma request_tip: "obeys R (request_tip_if_missing C) n"
  unfolding request_tip_if_missing_def Let_def
  by (intro obeys_rules obeys_update_emit requests_quiet) simp

lemma cancel: "obeys R cancel_obsolete_requests n"
  unfolding cancel_obsolete_requests_def Let_def
  by (intro obeys_rules obeys_update_emit requests_quiet) (simp add: list_all_iff)

lemma statesync: "obeys R (maybe_statesync E) n"
  unfolding maybe_statesync_def by (intro obeys_rules)

lemma new_round: "obeys R start_new_round n"
  unfolding start_new_round_def by (intro obeys_rules obeys_update collectors)

lemma run_pacemaker_obeys:
  assumes "\<And>pm s pcmds. f n = Some (pm, s, pcmds) \<Longrightarrow>
    R n (n\<lparr>n_pacemaker := pm, n_safety := s\<rparr>) (concat (map (from_pacemaker_command E) pcmds))"
  shows "obeys R (run_pacemaker E f) n"
  unfolding run_pacemaker_def
  by (rule obeys_get, rule obeys_expect) (auto intro!: obeys_update_emit assms simp del: h_seq.simps)

lemma repropose_obeys:
  assumes "get_current_round (n_pacemaker n) = Some r"
  shows "obeys R (repropose E r tip lt) n"
  unfolding repropose_def Let_def
  by (auto intro!: obeys_rules coherency obeys_update_emit recovery reproposal
      simp: coherency_round assms simp del: h_seq.simps)

lemma propose_fresh_obeys: "obeys R (propose_fresh E e r qc fresh lt) n"
  unfolding propose_fresh_def Let_def
  by (intro obeys_rules coherency obeys_update_emit creation) simp

lemma request_tip_round:
  "request_tip_if_missing C n = Some (n1, cmds) \<Longrightarrow> n_pacemaker n1 = n_pacemaker n"
  by (auto simp: request_tip_if_missing_def handler_defs Let_def
      split: round_certificate.splits high_extend.splits if_splits)

lemma propose: "obeys R (try_propose E) n"
  unfolding try_propose_def
  by (intro obeys_rules request_tip repropose_obeys propose_fresh_obeys) (simp add: request_tip_round)

lemma qc: "obeys R (process_qc E qc) n"
  unfolding process_qc_def
  by (intro obeys_rules commit cancel statesync run_pacemaker_obeys certificate request_blocks new_round propose)

lemma tc: "obeys R (process_tc E tc) n"
  unfolding process_tc_def by (intro obeys_rules run_pacemaker_obeys certificate propose)

lemma add_block: "obeys R (try_add_and_commit_blocktree E b vote_on) n"
  unfolding try_add_and_commit_blocktree_def
  by (intro obeys_rules obeys_update add coherency vote propose statesync request_blocks)

text \<open>The event handlers.\<close>

lemma timeout_expiry: "obeys R (handle_timeout_expiry E r) n"
  unfolding handle_timeout_expiry_def by (intro obeys_rules run_pacemaker_obeys local_timeout)

lemma proposal_message: "obeys R (handle_proposal_message E author p) n"
  unfolding handle_proposal_message_def Let_def
  by (intro obeys_rules obeys_then qc tc obeys_update handled add_block)

lemma vote_collected: "R n (n\<lparr>n_vote_state := st\<rparr>) []"
  using collectors [where n = n and st = st and ne = "n_no_endorsement_state n"] by simp

lemma no_endorsement_collected: "R n (n\<lparr>n_no_endorsement_state := st\<rparr>) []"
  using collectors [where n = n and st = "n_vote_state n" and ne = st] by simp

lemma vote_message: "obeys R (handle_vote_message E author m) n"
  unfolding handle_vote_message_def Let_def
  by (intro obeys_rules obeys_then obeys_update obeys_emit vote_collected qc propose quiet_cmds)
     (simp add: sign_message_def Let_def)

lemma timeout_message: "obeys R (handle_timeout_message E author tm) n"
  unfolding handle_timeout_message_def Let_def
  by (intro obeys_rules qc tc vote_message run_pacemaker_obeys remote_timeout propose)

lemma round_recovery_message: "obeys R (handle_round_recovery_message E author rr) n"
  unfolding handle_round_recovery_message_def Let_def
  by (intro obeys_rules obeys_then tc obeys_update_emit no_endorsement)

lemma no_endorsement_message: "obeys R (handle_no_endorsement_message E author m) n"
  unfolding handle_no_endorsement_message_def Let_def
  by (intro obeys_rules obeys_then obeys_update no_endorsement_collected propose)

lemma advance_round_message: "obeys R (handle_advance_round_message E author m) n"
  unfolding handle_advance_round_message_def by (intro obeys_rules qc tc)

lemma synced_blocks: "obeys R (add_synced_blocks E bs) n"
proof (induction bs arbitrary: n)
  case (Cons b bs)
  then show ?case
    by (simp del: h_seq.simps, intro obeys_rules obeys_then add_block)
qed (simp add: obeys_skip)

lemma block_sync: "obeys R (handle_block_sync E rng bs) n"
  unfolding handle_block_sync_def by (intro obeys_rules synced_blocks obeys_update requests)

end

end
