(* ===== verification/Node.thy ===== *)
theory Node
  imports Handler_Relations Validation "HOL-Library.Sublist"
begin

text \<open>
  A node in live mode (\<open>monad-state/src/consensus.rs\<close>): a consensus event is a message to verify and
  validate, an expired timer, or blocks that arrived; the handlers of the consensus state run on it, and
  a node that is no validator of the current epoch drops the commands that would publish. \<open>node_run\<close>
  is a run of a node over any sequence of events, with the clock and the validators of each moment.

  \<open>message_checks\<close> holds what validation takes from other libraries: the certificate cache's map, the
  check that a signature is well formed, and the recovery of a message's author.
\<close>

section \<open>Data\<close>

record ('s, 'e, 'k, 'l) message_checks =
  mc_cache_ops :: "('s, 'e, 'k, 'l) cache_ops"
  mc_signature_ok :: "signature \<Rightarrow> bool"
  mc_recover :: "signature \<Rightarrow> ('s, 'e) consensus_message \<Rightarrow> node_id option"

datatype ('s, 'e) consensus_event =
    Message_Event node_id "('s, 'e) consensus_message" signature
  | Timeout_Event round
  | BlockSync_Event block_range "('s, 'e) consensus_full_block list"
  | SendVote_Event round

datatype role = Validator_Role | FullNode_Role

section \<open>Operations\<close>

text \<open>An invalid message gives no evidence commands, which the code leaves to later.\<close>

definition verify_and_validate_consensus_message ::
  "('s, 'e, 'k, 'l) message_checks \<Rightarrow> ('s, 'e, 'p) consensus_env \<Rightarrow> epoch_manager \<Rightarrow>
   ('s, 'e) consensus_message \<Rightarrow> signature \<Rightarrow> 'l certificate_cache \<Rightarrow>
   (('s, 'e) verified_message option \<times> 'l certificate_cache) panics" where
  "verify_and_validate_consensus_message K E em message author_signature cache =
     (case message_verify (mc_recover K) em (ce_val_epoch_map E) message author_signature of
        Inl _ \<Rightarrow> Some (None, cache)
      | Inr author \<Rightarrow> do {
          (validated, cache') \<leftarrow> message_validate (mc_cache_ops K) (ce_crypto E) (mc_signature_ok K) em
             (ce_val_epoch_map E) (ce_election E) (ce_version E) message cache;
          Some (case validated of
                  Inl _ \<Rightarrow> None
                | Inr m \<Rightarrow> Some \<lparr>vd_author = author, vd_message = m, vd_author_signature = author_signature\<rparr>,
                cache') })"

definition handle_verified_message ::
  "('s, 'e, 'p) consensus_env \<Rightarrow> ('s, 'e) verified_message \<Rightarrow> ('s, 'e, 'p) handler" where
  "handle_verified_message E m =
     (case cm_message (vd_message m) of
        Proposal_Msg msg \<Rightarrow>
          h_then (handle_proposal_message E (vd_author m) msg)
            (h_emit [CC_PublishToFullNodes (p_proposal_epoch msg) m])
      | Vote_Msg msg \<Rightarrow> handle_vote_message E (vd_author m) msg
      | Timeout_Msg msg \<Rightarrow> handle_timeout_message E (vd_author m) msg
      | RoundRecovery_Msg msg \<Rightarrow> handle_round_recovery_message E (vd_author m) msg
      | NoEndorsement_Msg msg \<Rightarrow> handle_no_endorsement_message E (vd_author m) msg
      | AdvanceRound_Msg msg \<Rightarrow> handle_advance_round_message E (vd_author m) msg)"

definition get_role :: "('s, 'e, 'p) consensus_env \<Rightarrow> ('s, 'e, 'p) node \<Rightarrow> role panics" where
  "get_role E n = do {
     vs \<leftarrow> get_val_set (ce_val_epoch_map E) (pm_current_epoch (n_pacemaker n));
     Some (if is_member vs (ce_nodeid E) then Validator_Role else FullNode_Role) }"

fun full_node_keeps :: "('s, 'e) consensus_command \<Rightarrow> bool" where
  "full_node_keeps (CC_Publish _ _) = False"
| "full_node_keeps (CC_CreateProposal _) = False"
| "full_node_keeps (CC_PublishToFullNodes _ _) = False"
| "full_node_keeps _ = True"

definition filter_cmds ::
  "('s, 'e, 'p) consensus_env \<Rightarrow> ('s, 'e, 'p) node \<Rightarrow> ('s, 'e) consensus_command list \<Rightarrow>
   ('s, 'e) consensus_command list panics" where
  "filter_cmds E n cmds = do {
     role \<leftarrow> get_role E n;
     Some (case role of FullNode_Role \<Rightarrow> filter full_node_keeps cmds | Validator_Role \<Rightarrow> cmds) }"

text \<open>The handler of an event, on the node and the certificate cache, before the commands are filtered.\<close>

definition handle_event ::
  "('s, 'e, 'k, 'l) message_checks \<Rightarrow> ('s, 'e, 'p) consensus_env \<Rightarrow> ('s, 'e) consensus_event \<Rightarrow>
   ('s, 'e, 'p) node \<Rightarrow> 'l certificate_cache \<Rightarrow>
   (('s, 'e, 'p) node \<times> ('s, 'e) consensus_command list \<times> 'l certificate_cache) panics" where
  "handle_event K E event n cache =
     (let local = (\<lambda>m. do { (n', cmds) \<leftarrow> m n; Some (n', cmds, cache) })
      in case event of
        Message_Event sender message author_signature \<Rightarrow> do {
          (verified, cache') \<leftarrow> verify_and_validate_consensus_message K E (n_epoch_manager n)
             message author_signature cache;
          (case verified of
             None \<Rightarrow> Some (n, [], cache')
           | Some m \<Rightarrow> do { (n', cmds) \<leftarrow> handle_verified_message E m n; Some (n', cmds, cache') }) }
      | Timeout_Event r \<Rightarrow> local (handle_timeout_expiry E r)
      | BlockSync_Event block_range full_blocks \<Rightarrow> local (handle_block_sync E block_range full_blocks)
      | SendVote_Event r \<Rightarrow> local (handle_vote_timer E r))"

text \<open>
  Every command is handed on with the upcoming rounds that the node leads, for the transaction pool; they
  are looked up only when there is a command.
\<close>

definition wrap_rounds ::
  "('s, 'e, 'p) consensus_env \<Rightarrow> ('s, 'e, 'p) node \<Rightarrow> ('s, 'e) consensus_command list \<Rightarrow> round list panics" where
  "wrap_rounds E n cmds = (if cmds = [] then Some [] else iter_upcoming_self_leader_rounds E n)"

definition child_update ::
  "('s, 'e, 'k, 'l) message_checks \<Rightarrow> ('s, 'e, 'p) consensus_env \<Rightarrow> ('s, 'e) consensus_event \<Rightarrow>
   ('s, 'e, 'p) node \<Rightarrow> 'l certificate_cache \<Rightarrow>
   (('s, 'e, 'p) node \<times> ('s, 'e) consensus_command list \<times> 'l certificate_cache) panics" where
  "child_update K E event n cache = do {
     (n', cmds, cache') \<leftarrow> handle_event K E event n cache;
     kept \<leftarrow> filter_cmds E n' cmds;
     upcoming_leader_rounds \<leftarrow> wrap_rounds E n' kept;
     Some (n', kept, cache') }"

section \<open>Runs\<close>

text \<open>Between events the clock moves and validator sets become known; the rest of the environment stays.\<close>

inductive node_run ::
  "('s, 'e, 'k, 'l) message_checks \<Rightarrow> ('s, 'e, 'p) consensus_env \<Rightarrow> ('s, 'e, 'p) node \<Rightarrow>
   'l certificate_cache \<Rightarrow> ('s, 'e) consensus_event list \<Rightarrow> ('s, 'e) consensus_command list \<Rightarrow>
   ('s, 'e, 'p) node \<Rightarrow> 'l certificate_cache \<Rightarrow> bool"
  for K E where
  nr_init: "node_run K E n cache [] [] n cache"
| nr_step: "\<lbrakk>node_run K E n cache events cmds n1 cache1;
    child_update K (E\<lparr>ce_block_timestamp := clock, ce_val_epoch_map := vem\<rparr>) event n1 cache1 =
      Some (n2, cmds', cache2)\<rbrakk> \<Longrightarrow>
    node_run K E n cache (events @ [event]) (cmds @ cmds') n2 cache2"

text \<open>What the elementary steps do to the node, every event does.\<close>

context node_relation
begin

lemma verified_message:
  assumes "\<And>e p. cm_message (vd_message m) = Proposal_Msg p \<Longrightarrow> \<forall>n. R n n [CC_PublishToFullNodes e m]"
  shows "obeys R (handle_verified_message E m) n"
  unfolding handle_verified_message_def
  by (auto intro!: obeys_then obeys_emit proposal_message vote_message timeout_message round_recovery_message
      no_endorsement_message advance_round_message dest: assms split: protocol_message.split)

lemma event:
  assumes forward: "\<And>e m p. cm_message (vd_message m) = Proposal_Msg p \<Longrightarrow> \<forall>n. R n n [CC_PublishToFullNodes e m]"
    and run: "handle_event K E ev n cache = Some (n', cmds, cache')"
  shows "R n n' cmds"
  using run verified_message [OF forward, THEN obeysD] timeout_expiry [THEN obeysD] block_sync [THEN obeysD]
    timer [THEN obeysD] refl
  by (auto simp: handle_event_def Let_def split: consensus_event.splits Option.bind_splits option.splits)

end

end
