(* ===== verification/Node_Safety.thy ===== *)
theory Node_Safety
  imports Node
begin

text \<open>
  The node as a client of its safety module. What a node publishes is a trace of votes, timeouts,
  proposals, no-endorsements and recovery requests; \<open>refines\<close> says that a step of the node is a run of
  the safety module with the same trace, and every event handler is shown to be one. The guarantees of
  the safety module become guarantees on what the node sends over a whole run.
\<close>

section \<open>Traces\<close>

datatype action =
    Proposes round
  | TimesOut round
  | NoEndorses round
  | RequestsRecovery round

fun message_actions :: "('s, 'e) protocol_message \<Rightarrow> action list" where
  "message_actions (Proposal_Msg p) = [Proposes (p_proposal_round p)]"
| "message_actions (Timeout_Msg t) = [TimesOut (ti_round (tm_tminfo t))]"
| "message_actions (NoEndorsement_Msg m) = [NoEndorses (ne_round (nemsg_msg m))]"
| "message_actions (RoundRecovery_Msg m) = [RequestsRecovery (rr_round m)]"
| "message_actions _ = []"

text \<open>A proposal to create counts as proposed; the proposals forwarded to full nodes are not the node's own.\<close>

fun command_actions :: "('s, 'e) consensus_command \<Rightarrow> action list" where
  "command_actions (CC_Publish _ m) = message_actions (cm_message (vd_message m))"
| "command_actions (CC_CreateProposal c) = [Proposes (cpr_round c)]"
| "command_actions _ = []"

fun call_actions :: "('s, 'e) safety_call \<Rightarrow> action list" where
  "call_actions (Propose r) = [Proposes r]"
| "call_actions (TimeOut r) = [TimesOut r]"
| "call_actions (NoEndorse r _) = [NoEndorses r]"
| "call_actions (RecoveryRequest r) = [RequestsRecovery r]"
| "call_actions _ = []"

abbreviation actions :: "('s, 'e) consensus_command list \<Rightarrow> action list" where
  "actions cmds \<equiv> concat (map command_actions cmds)"

text \<open>The votes a message carries: its own, or the one inside a timeout.\<close>

fun message_votes :: "('s, 'e) crypto \<Rightarrow> ('s, 'e) protocol_message \<Rightarrow> (round \<times> block_id) set" where
  "message_votes C (Vote_Msg m) = {(v_round (vmsg_vote m), v_id (vmsg_vote m))}"
| "message_votes C (Timeout_Msg t) =
     (case tm_high_extend t of
        HEV_Tip tip _ \<Rightarrow> {(ti_round (tm_tminfo t), header_id C (tip_block_header tip))}
      | HEV_Qc _ \<Rightarrow> {})"
| "message_votes C _ = {}"

fun command_votes :: "('s, 'e) crypto \<Rightarrow> ('s, 'e) consensus_command \<Rightarrow> (round \<times> block_id) set" where
  "command_votes C (CC_Publish _ m) = message_votes C (cm_message (vd_message m))"
| "command_votes C (CC_PublishToFullNodes _ m) = message_votes C (cm_message (vd_message m))"
| "command_votes C _ = {}"

definition votes_published :: "('s, 'e) crypto \<Rightarrow> ('s, 'e) consensus_command list \<Rightarrow> (round \<times> block_id) set" where
  "votes_published C cmds = \<Union> (command_votes C ` set cmds)"

text \<open>The vote that waits for the vote timer.\<close>

definition ready_votes :: "('s, 'e, 'p) node \<Rightarrow> (round \<times> block_id) set" where
  "ready_votes n = (case n_scheduled_vote n of Some (VoteReady v) \<Rightarrow> {(v_round v, v_id v)} | _ \<Rightarrow> {})"

definition vote_ids ::
  "('s, 'e) crypto \<Rightarrow> (round \<times> ('s, 'e) consensus_tip) set \<Rightarrow> (round \<times> block_id) set" where
  "vote_ids C V = (\<lambda>(r, t). (r, header_id C (tip_block_header t))) ` V"

text \<open>
  A step of the node refines the safety module: the module runs from its state before to its state
  after, with the same actions, and every vote published or kept ready was ready before or signed in
  that run.
\<close>

definition refines :: "('s, 'e) crypto \<Rightarrow> ('s, 'e, 'p) relation" where
  "refines C n n' cmds \<longleftrightarrow>
     (\<exists>calls V. safety_run (n_safety n) calls V (n_safety n') \<and>
        actions cmds = concat (map call_actions calls) \<and>
        votes_published C cmds \<union> ready_votes n' \<subseteq> ready_votes n \<union> vote_ids C V)"

lemma votes_published_simps [simp]:
  "votes_published C [] = {}" "votes_published C (c # cmds) = command_votes C c \<union> votes_published C cmds"
  "votes_published C (cmds @ cmds') = votes_published C cmds \<union> votes_published C cmds'"
  by (auto simp: votes_published_def)

lemma vote_ids_simps [simp]:
  "vote_ids C {} = {}" "vote_ids C (insert (r, t) V) = insert (r, header_id C (tip_block_header t)) (vote_ids C V)"
  "vote_ids C (V \<union> V') = vote_ids C V \<union> vote_ids C V'"
  by (auto simp: vote_ids_def)

lemma vote_ids_iff: "(r, b) \<in> vote_ids C V \<longleftrightarrow> (\<exists>t. (r, t) \<in> V \<and> b = header_id C (tip_block_header t))"
  by (force simp: vote_ids_def)

lemma safety_run_append:
  assumes "safety_run s1 calls' V' s2" and "safety_run s calls V s1"
  shows "safety_run s (calls @ calls') (V \<union> V') s2"
  using assms
proof (induction s1 calls' V' s2 rule: safety_run.induct)
  case (run_step s1 calls' V' s2 c s3)
  from safety_run.run_step [OF run_step.IH [OF run_step.prems] run_step.hyps(2)] show ?case
    by (simp add: Un_assoc)
qed simp

lemma safety_run_one: "safety_exec s c = Some s' \<Longrightarrow> safety_run s [c] (signed_votes s c) s'"
  using run_step [OF run_init] by fastforce

lemma refines_refl: "refines C n n []"
  unfolding refines_def by (intro exI [of _ "[]"] exI [of _ "{}"]) (simp add: run_init)

lemma refines_trans:
  assumes "refines C n n1 cmds1" and "refines C n1 n2 cmds2"
  shows "refines C n n2 (cmds1 @ cmds2)"
proof -
  obtain calls1 V1 calls2 V2 where
    1: "safety_run (n_safety n) calls1 V1 (n_safety n1)" "actions cmds1 = concat (map call_actions calls1)"
      "votes_published C cmds1 \<union> ready_votes n1 \<subseteq> ready_votes n \<union> vote_ids C V1" and
    2: "safety_run (n_safety n1) calls2 V2 (n_safety n2)" "actions cmds2 = concat (map call_actions calls2)"
      "votes_published C cmds2 \<union> ready_votes n2 \<subseteq> ready_votes n1 \<union> vote_ids C V2"
    using assms unfolding refines_def by (elim exE conjE) (rule that)
  show ?thesis
    unfolding refines_def
    by (rule exI [of _ "calls1 @ calls2"], rule exI [of _ "V1 \<union> V2"])
       (use 1 2 safety_run_append [OF 2(1) 1(1)] in auto)
qed

text \<open>A step that is one call of the safety module, and one that does not touch it.\<close>

lemma refines_call:
  assumes "safety_exec (n_safety n) c = Some (n_safety n')" and "actions cmds = call_actions c"
    and "votes_published C cmds \<union> ready_votes n' \<subseteq> ready_votes n \<union> vote_ids C (signed_votes (n_safety n) c)"
  shows "refines C n n' cmds"
  unfolding refines_def
  by (rule exI [of _ "[c]"], rule exI) (use safety_run_one [OF assms(1)] assms(2,3) in simp)

lemma refines_frame:
  assumes "n_safety n' = n_safety n" and "actions cmds = []" and "votes_published C cmds \<union> ready_votes n' \<subseteq> ready_votes n"
  shows "refines C n n' cmds"
  unfolding refines_def
  by (rule exI [of _ "[]"], rule exI [of _ "{}"]) (use assms run_init in auto)

interpretation rf: handler_relation "refines C" for C
  by unfold_locales (rule refines_refl, rule refines_trans)

section \<open>The pacemaker\<close>

lemma sign_message_simps [simp]:
  "cm_message (vd_message (sign_message E m)) = m"
  by (simp add: sign_message_def Let_def)

abbreviation pacemaker_cmds ::
  "('s, 'e, 'p) consensus_env \<Rightarrow> ('s, 'e) pacemaker_command list \<Rightarrow> ('s, 'e) consensus_command list" where
  "pacemaker_cmds E pcmds \<equiv> concat (map (from_pacemaker_command E) pcmds)"

lemma ready_votes_cong: "n_scheduled_vote n' = n_scheduled_vote n \<Longrightarrow> ready_votes n' = ready_votes n"
  by (simp add: ready_votes_def)

lemma certificate_cases:
  assumes "pacemaker_process_certificate pm em s cert = Some (pm', s', pcmds)"
  obtains (old) "pm' = pm" "s' = s" "pcmds = []"
  | (advanced) e timer where
      "round_certificate_round (pm_high_certificate pm) < round_certificate_round cert"
      "pm_high_certificate pm' = cert" "s' = safety_process_certificate s cert"
      "pcmds = [PC_EnterRound e (round_certificate_round cert + 1) cert, PC_Schedule (round_certificate_round cert + 1) timer]"
proof (cases "round_certificate_round cert \<le> round_certificate_round (pm_high_certificate pm)")
  case True
  then show thesis
    using assms by (intro old) (simp_all add: pacemaker_process_certificate_def)
next
  case False
  then obtain e timer where
    "pm_high_certificate pm' = cert" "s' = safety_process_certificate s cert"
    "pcmds = [PC_EnterRound e (round_certificate_round cert + 1) cert, PC_Schedule (round_certificate_round cert + 1) timer]"
    using assms
    by (auto simp: pacemaker_process_certificate_def Let_def get_current_round_def bind_eq_Some_conv)
  with False show thesis
    by (intro advanced) simp_all
qed

lemma certificate_refines:
  assumes "pacemaker_process_certificate pm em (n_safety n) cert = Some (pm', n_safety n', pcmds)"
    and "n_scheduled_vote n' = n_scheduled_vote n"
  shows "refines (ce_crypto E) n n' (pacemaker_cmds E pcmds)"
  using assms(1)
proof (cases rule: certificate_cases)
  case old
  then show ?thesis
    using ready_votes_cong [OF assms(2)] by (intro refines_frame) simp_all
next
  case advanced
  then show ?thesis
    using ready_votes_cong [OF assms(2)]
    by (intro refines_call [where c = "ProcessCertificate cert"]) simp_all
qed

lemma local_timeout_cases:
  assumes "local_timeout_round pm s = Some (s', pcmds)"
  obtains r ti lrc timer where "safety_timeout s r = Some s'" "ti_round ti = r"
    "pcmds = [PC_ScheduleReset, PC_PrepareTimeout ti
       (case maybe_high_tip s of None \<Rightarrow> HE_Qc (round_certificate_qc (pm_high_certificate pm)) | Some tip \<Rightarrow> HE_Tip tip) lrc,
       PC_Schedule r timer]"
proof -
  obtain r timer where r: "get_current_round pm = Some r" "safety_timeout s r = Some s'"
      "get_round_timer pm r = Some timer"
    using assms by (auto simp: local_timeout_round_def Let_def bind_eq_Some_conv)
  have tip: "maybe_high_tip s' = maybe_high_tip s"
    using r(2) by (auto simp: safety_timeout_def)
  have ti: "ti_round (local_timeout_info pm r he) = r" for he
    by (simp add: local_timeout_info_def split: prod.split)
  show thesis
    by (rule that [OF r(2) ti]) (use assms r tip in \<open>auto simp: local_timeout_round_def Let_def bind_eq_Some_conv\<close>)
qed

lemma local_timeout_refines:
  assumes "local_timeout_round pm (n_safety n) = Some (n_safety n', pcmds)"
    and "n_scheduled_vote n' = n_scheduled_vote n"
  shows "refines (ce_crypto E) n n' (pacemaker_cmds E pcmds)"
  using assms(1)
proof (cases rule: local_timeout_cases)
  case (1 r ti lrc timer)
  then show ?thesis
    using ready_votes_cong [OF assms(2)]
    by (intro refines_call [where c = "TimeOut r"]) (simp_all add: timeout_new_def split: option.split)
qed

lemma join_timeout_refines:
  assumes "join_timeout pm vs (n_safety n) = Some (pm', n_safety n', pcmds)"
    and "n_scheduled_vote n' = n_scheduled_vote n"
  shows "refines (ce_crypto E) n n' (pacemaker_cmds E pcmds)"
  using assms local_timeout_refines [of pm n n' pcmds E] refines_frame [of n' n "[]"]
  by (auto simp: join_timeout_def ready_votes_def split: if_splits Option.bind_splits sum.splits)

text \<open>A remote timeout is old, or may make the node time out, or completes a timeout certificate as well.\<close>

lemma remote_timeout_cases:
  assumes run: "process_remote_timeout C pm em vs vm s author tm = Some (pm', s', pcmds)"
  obtains (old) "pm' = pm" "s' = s" "pcmds = []"
  | (joined) pending pm2 q where
      "join_timeout (pm\<lparr>pm_pending_timeouts := pending\<rparr>) vs s = Some (pm2, s', pcmds)"
      "pm' = pm2\<lparr>pm_pending_timeouts := q\<rparr>"
  | (formed) pending pm2 s2 pcmds1 q tc pcmds2 where
      "join_timeout (pm\<lparr>pm_pending_timeouts := pending\<rparr>) vs s = Some (pm2, s2, pcmds1)"
      "pacemaker_process_certificate (pm2\<lparr>pm_pending_timeouts := q\<rparr>) em s2 (RC_Tc tc) = Some (pm', s', pcmds2)"
      "pcmds = pcmds1 @ pcmds2"
proof -
  let ?pending = "bt_insert author tm (pm_pending_timeouts pm)"
  obtain r where r: "get_current_round pm = Some r"
    using run by (auto simp: process_remote_timeout_def split: Option.bind_splits)
  show thesis
  proof (cases "ti_round (tm_tminfo tm) < r")
    case True
    then show thesis
      using run r by (intro old) (simp_all add: process_remote_timeout_def)
  next
    case False
    then obtain pm2 s2 pcmds1 where
      j: "join_timeout (pm\<lparr>pm_pending_timeouts := ?pending\<rparr>) vs s = Some (pm2, s2, pcmds1)"
      using run r by (auto simp: process_remote_timeout_def Let_def split: Option.bind_splits)
    show thesis
    proof (cases "pm_phase pm2 = Phase_One")
      case True
      then obtain q res where
        "timeout_loop C vs vm (ti_epoch (tm_tminfo tm)) (ti_round (tm_tminfo tm)) ?pending = Some (q, res)"
        using run r j False by (auto simp: process_remote_timeout_def Let_def split: Option.bind_splits)
      note loop = this
      show thesis
      proof (cases res)
        case None
        then show thesis
          using run r j False True loop
          by (intro joined [of ?pending pm2 q]) (simp_all add: process_remote_timeout_def Let_def)
      next
        case (Some tc)
        then obtain pcmds2 where
          "pacemaker_process_certificate (pm2\<lparr>pm_pending_timeouts := q\<rparr>) em s2 (RC_Tc tc) = Some (pm', s', pcmds2)"
          "pcmds = pcmds1 @ pcmds2"
          using run r j False True loop
          by (auto simp: process_remote_timeout_def Let_def split: Option.bind_splits)
        then show thesis
          by (rule formed [OF j])
      qed
    next
      case False
      then show thesis
        using run r j \<open>\<not> ti_round (tm_tminfo tm) < r\<close>
        by (intro joined [of ?pending pm2 "pm_pending_timeouts pm2"]) (simp_all add: process_remote_timeout_def Let_def)
    qed
  qed
qed

lemma remote_timeout_refines:
  assumes "process_remote_timeout C pm em vs vm (n_safety n) author tm = Some (pm', n_safety n', pcmds)"
    and "n_scheduled_vote n' = n_scheduled_vote n"
  shows "refines (ce_crypto E) n n' (pacemaker_cmds E pcmds)"
  using assms(1)
proof (cases rule: remote_timeout_cases)
  case old
  then show ?thesis
    using assms(2) by (intro refines_frame) (auto simp: ready_votes_def)
next
  case (joined pending pm2 q)
  then show ?thesis
    using assms(2) by (intro join_timeout_refines)
next
  case (formed pending pm2 s2 pcmds1 q tc pcmds2)
  let ?n = "n\<lparr>n_safety := s2\<rparr>"
  have "refines (ce_crypto E) n ?n (pacemaker_cmds E pcmds1)"
    using formed(1) by (intro join_timeout_refines) auto
  moreover have "refines (ce_crypto E) ?n n' (pacemaker_cmds E pcmds2)"
    using formed(2) assms(2) by (intro certificate_refines) auto
  ultimately show ?thesis
    using refines_trans formed(3) by fastforce
qed

section \<open>The consensus state\<close>

lemma send_vote_refines: "obeys (\<lambda>n n' cmds. n_safety n' = n_safety n \<and> ready_votes n' = {} \<and> actions cmds = [] \<and>
    votes_published C cmds = {(v_round v, v_id v)}) (send_vote_and_reset_timer E r v) n"
  unfolding send_vote_and_reset_timer_def Let_def
  by (intro obeys_intros) (auto simp: obeys_def handler_defs ready_votes_def vote_message_new_def)

lemma vote_timer_refines: "obeys (refines C) (handle_vote_timer E r) n"
proof (cases "n_scheduled_vote n")
  case None
  then show ?thesis
    by (auto simp: handle_vote_timer_def ready_votes_def intro!: obeys_get obeys_update refines_frame)
next
  case (Some st)
  show ?thesis
  proof (cases st)
    case TimerFired
    with Some show ?thesis
      by (auto simp: handle_vote_timer_def ready_votes_def intro!: obeys_get obeys_update refines_frame)
  next
    case (VoteReady v)
    with Some have "handle_vote_timer E r n = send_vote_and_reset_timer E r v n"
      and ready: "ready_votes n = {(v_round v, v_id v)}"
      by (simp_all add: handle_vote_timer_def h_get_def ready_votes_def)
    then show ?thesis
      using obeysD [OF send_vote_refines [of C v E r n]]
      by (auto simp: obeys_def intro!: refines_frame)
  qed
qed

text \<open>However it is scheduled, a new vote is all that can be sent or become ready.\<close>

definition only_vote :: "('s, 'e) crypto \<Rightarrow> vote \<Rightarrow> ('s, 'e, 'p) relation" where
  "only_vote C v n n' cmds \<longleftrightarrow> n_safety n' = n_safety n \<and> actions cmds = [] \<and>
     votes_published C cmds \<union> ready_votes n' \<subseteq> {(v_round v, v_id v)}"

lemma send_only_vote: "obeys (only_vote C v) (send_vote_and_reset_timer E r v) n"
  using obeysD [OF send_vote_refines [of C v E r n]] by (auto simp: obeys_def only_vote_def)

lemma schedule_vote_refines: "obeys (only_vote C v) (schedule_vote E r p v) n"
proof -
  have "obeys (only_vote C v) (h_update (n_scheduled_vote_update (\<lambda>_. Some (VoteReady v)))) n"
    by (rule obeys_update) (simp add: only_vote_def ready_votes_def)
  then show ?thesis
    unfolding schedule_vote_def Let_def
    by (auto intro!: obeys_get obeys_expect obeys_panic send_only_vote split: option.split outgoing_vote_status.split)
qed

lemma try_vote_refines: "obeys (refines (ce_crypto E)) (try_vote E tc tip) n"
  unfolding try_vote_def Let_def
proof (intro obeys_intros rf.obeys_skip)
  fix r ts p s
  let ?v = "\<lparr>v_id = header_id (ce_crypto E) (tip_block_header tip), v_round = r,
    v_epoch = pm_current_epoch (n_pacemaker n)\<rparr>"
  let ?lt = "Option.bind tc (tc_tip_id (ce_crypto E))"
  assume "safety_vote (n_safety n) r ?lt tip = Some s"
  then show "obeys (refines (ce_crypto E)) (h_seq [h_update (n_safety_update (\<lambda>_. s)), schedule_vote E r p ?v]) n"
    using obeysD [OF schedule_vote_refines [of "ce_crypto E" ?v E r p "n\<lparr>n_safety := s\<rparr>"]]
    by (auto simp: obeys_def handler_defs bind_eq_Some_conv only_vote_def
        intro!: refines_call [where c = "CastVote r ?lt tip"])
qed

lemma quiet_refines: "list_all quiet cmds \<Longrightarrow> refines C n n cmds"
proof (rule refines_frame)
  assume q: "list_all quiet cmds"
  have "command_actions c = [] \<and> command_votes C c = {}" if "quiet c" for c :: "('a, 'b) consensus_command"
    using that by (cases c rule: quiet.cases) (auto split: protocol_message.splits)
  with q show "actions cmds = []" and "votes_published C cmds \<union> ready_votes n \<subseteq> ready_votes n"
    by (auto simp: list_all_iff votes_published_def)
qed simp

lemma chain_only_refines: "chain_only n n' cmds \<Longrightarrow> refines C n n' cmds"
proof (rule refines_frame)
  assume c: "chain_only n n' cmds"
  then show "n_safety n' = n_safety n"
    by (simp add: chain_only_def)
  have "command_actions x = [] \<and> command_votes C x = {}" if "x \<in> set cmds" for x
    using c that by (cases x) (auto simp: chain_only_def)
  with c show "actions cmds = []" and "votes_published C cmds \<union> ready_votes n' \<subseteq> ready_votes n"
    by (auto simp: votes_published_def ready_votes_def chain_only_def)
qed

text \<open>A call of the safety module that signs no vote, with the command it allows.\<close>

lemma call_refines:
  assumes "safety_exec (n_safety n) c = Some s" and "actions cmds = call_actions c" and "votes_published C cmds = {}"
  shows "refines C n (n\<lparr>n_safety := s\<rparr>) cmds"
  using assms by (intro refines_call [where c = c]) (simp_all add: ready_votes_def)

lemma process_local_timeout_refines:
  assumes "process_local_timeout (n_pacemaker n) (n_safety n) = Some (pm, s, pcmds)"
  shows "refines (ce_crypto E) n (n\<lparr>n_pacemaker := pm, n_safety := s\<rparr>) (pacemaker_cmds E pcmds)"
  using assms
  by (intro local_timeout_refines [where pm = "n_pacemaker n\<lparr>pm_phase := Phase_One\<rparr>"])
     (auto simp: process_local_timeout_def Let_def bind_eq_Some_conv)

interpretation rn: node_relation "refines (ce_crypto E)" E for E
proof unfold_locales
  fix n :: "('a, 'b, 'c) node" and s r
  show "obeys (refines (ce_crypto E)) (try_commit E qc) n" for qc
    using try_commit_chain_only [of E qc n] chain_only_refines by (auto simp: obeys_def)
  show "refines (ce_crypto E) n (n\<lparr>n_safety := s\<rparr>) []" if "safety_handle_proposal (n_safety n) r = Some s"
    using that by (intro call_refines [where c = "HandleProposal r"]) simp_all
  show "refines (ce_crypto E) n (n\<lparr>n_safety := s\<rparr>) [CC_Publish target (sign_message E (RoundRecovery_Msg
      \<lparr>rr_round = r, rr_epoch = e, rr_tc = tc\<rparr>))]" if "safety_recovery_request (n_safety n) r = Some s" for target e tc
    using that by (intro call_refines [where c = "RecoveryRequest r"]) simp_all
  show "refines (ce_crypto E) n (n\<lparr>n_safety := s\<rparr>) [CC_Publish target (sign_message E (Proposal_Msg
      \<lparr>p_proposal_round = r, p_proposal_epoch = e, p_tip = tip, p_block_body = body, p_last_round_tc = lt\<rparr>))]"
    if "safety_propose (n_safety n) r = Some s" for target e tip body lt
    using that by (intro call_refines [where c = "Propose r"]) simp_all
  show "refines (ce_crypto E) n (n\<lparr>n_safety := s\<rparr>) [CC_CreateProposal c]"
    if "safety_propose (n_safety n) (cpr_round c) = Some s" for c
    using that by (intro call_refines [where c = "Propose (cpr_round c)"]) simp_all
  show "refines (ce_crypto E) n (n\<lparr>n_safety := s\<rparr>) [CC_Publish target (sign_message E (NoEndorsement_Msg
      (no_endorsement_message_new (ce_crypto E) \<lparr>ne_epoch = e, ne_round = r, ne_tip_qc_round = q\<rparr> key)))]"
    if "safety_no_endorse (n_safety n) r i = Some s" for target e q i key
    using that by (intro call_refines [where c = "NoEndorse r i"]) (simp_all add: no_endorsement_message_new_def)
qed (simp_all add: quiet_refines certificate_refines process_local_timeout_refines remote_timeout_refines
      try_vote_refines vote_timer_refines chain_only_refines chain_only_def)

lemma handle_event_refines:
  assumes "handle_event K E ev n cache = Some (n', cmds, cache')"
  shows "refines (ce_crypto E) n n' cmds"
proof (rule rn.event [OF _ assms])
  show "\<forall>n. refines (ce_crypto E) n n [CC_PublishToFullNodes e m]"
    if "cm_message (vd_message m) = Proposal_Msg p" for e m p
    using that by (intro allI refines_frame) simp_all
qed

text \<open>
  C3. The node refines its safety module: whatever the event, the messages its handler publishes are
  those of a run of the safety module from the node's safety state before to that after. Proposals,
  timeouts, no-endorsements and recovery requests are published exactly as the module allowed them, in
  order; and every vote published, alone or inside a timeout, or kept for the vote timer, was signed in
  that run or was already waiting for the timer.
\<close>

theorem events_refine_safety:
  assumes "handle_event K E ev n cache = Some (n', cmds, cache')"
  shows "\<exists>calls V. safety_run (n_safety n) calls V (n_safety n') \<and>
    actions cmds = concat (map call_actions calls) \<and>
    votes_published (ce_crypto E) cmds \<union> ready_votes n' \<subseteq> ready_votes n \<union> vote_ids (ce_crypto E) V"
  using handle_event_refines [OF assms] unfolding refines_def .

section \<open>Runs\<close>

lemma filter_cmds_subset:
  assumes "filter_cmds E n cmds = Some kept"
  shows "subseq (actions kept) (actions cmds)" and "votes_published C kept \<subseteq> votes_published C cmds"
proof -
  have "subseq (actions (filter P cmds)) (actions cmds)" for P :: "('a, 'b) consensus_command \<Rightarrow> bool"
    by (induction cmds) (auto intro: list_emb_append_mono list_emb_append2)
  then show "subseq (actions kept) (actions cmds)"
    using assms by (auto simp: filter_cmds_def split: Option.bind_splits role.splits)
  show "votes_published C kept \<subseteq> votes_published C cmds"
    using assms by (auto simp: filter_cmds_def votes_published_def split: Option.bind_splits role.splits)
qed

lemma node_run_refines:
  assumes "node_run K E n cache evs cmds n' cache'"
  shows "\<exists>calls V. safety_run (n_safety n) calls V (n_safety n') \<and>
    subseq (actions cmds) (concat (map call_actions calls)) \<and>
    votes_published (ce_crypto E) cmds \<union> ready_votes n' \<subseteq> ready_votes n \<union> vote_ids (ce_crypto E) V"
  using assms
proof (induction rule: node_run.induct)
  case (nr_init n cache)
  show ?case
    by (rule exI [of _ "[]"], rule exI [of _ "{}"]) (simp add: run_init)
next
  case (nr_step n cache evs cmds n1 cache1 vem clock ev n2 kept cache2)
  let ?E = "E\<lparr>ce_block_timestamp := clock, ce_val_epoch_map := vem\<rparr>"
  obtain cmds' where h: "handle_event K ?E ev n1 cache1 = Some (n2, cmds', cache2)"
    and f: "filter_cmds ?E n2 cmds' = Some kept"
    using nr_step.hyps(2) by (auto simp: child_update_def bind_eq_Some_conv)
  obtain calls V where
    1: "safety_run (n_safety n) calls V (n_safety n1)" "subseq (actions cmds) (concat (map call_actions calls))"
      "votes_published (ce_crypto E) cmds \<union> ready_votes n1 \<subseteq> ready_votes n \<union> vote_ids (ce_crypto E) V"
    using nr_step.IH by (elim exE conjE) (rule that)
  obtain calls' V' where
    2: "safety_run (n_safety n1) calls' V' (n_safety n2)" "actions cmds' = concat (map call_actions calls')"
      "votes_published (ce_crypto E) cmds' \<union> ready_votes n2 \<subseteq> ready_votes n1 \<union> vote_ids (ce_crypto E) V'"
    using handle_event_refines [OF h] unfolding refines_def by (elim exE conjE) (rule that, simp_all)
  have "subseq (actions (cmds @ kept)) (concat (map call_actions (calls @ calls')))"
    using list_emb_append_mono [OF 1(2) filter_cmds_subset(1) [OF f]] 2(2) by simp
  moreover have "votes_published (ce_crypto E) (cmds @ kept) \<union> ready_votes n2 \<subseteq>
      ready_votes n \<union> vote_ids (ce_crypto E) (V \<union> V')"
    using 1(3) 2(3) filter_cmds_subset(2) [OF f, of "ce_crypto E"] by auto
  ultimately show ?case
    using safety_run_append [OF 2(1) 1(1)] by blast
qed

text \<open>
  C2. A node votes for at most one block per round: over any sequence of events, whatever messages
  arrive and whatever the clock does, two votes that a node publishes for the same round, as votes or
  inside timeouts, are for the same block. At the start no vote waits for the vote timer.
\<close>

theorem node_votes_once:
  assumes run: "node_run K E n cache evs cmds n' cache'" and "ready_votes n = {}"
    and "(r, b) \<in> votes_published (ce_crypto E) cmds" and "(r, b') \<in> votes_published (ce_crypto E) cmds"
  shows "b = b'"
proof -
  obtain calls V where s: "safety_run (n_safety n) calls V (n_safety n')"
    and V: "votes_published (ce_crypto E) cmds \<subseteq> vote_ids (ce_crypto E) V"
    using node_run_refines [OF run] assms(2) by auto
  have "(r, b) \<in> vote_ids (ce_crypto E) V" "(r, b') \<in> vote_ids (ce_crypto E) V"
    using V assms(3,4) by auto
  then show ?thesis
    using votes_inv_run [OF s] unfolding votes_inv_def vote_ids_iff by blast
qed

section \<open>Each action once\<close>

definition proposed_rounds :: "action list \<Rightarrow> round list" where
  "proposed_rounds = List.map_filter (\<lambda>a. case a of Proposes r \<Rightarrow> Some r | _ \<Rightarrow> None)"

definition timed_out_rounds :: "action list \<Rightarrow> round list" where
  "timed_out_rounds = List.map_filter (\<lambda>a. case a of TimesOut r \<Rightarrow> Some r | _ \<Rightarrow> None)"

definition no_endorsed_rounds :: "action list \<Rightarrow> round list" where
  "no_endorsed_rounds = List.map_filter (\<lambda>a. case a of NoEndorses r \<Rightarrow> Some r | _ \<Rightarrow> None)"

definition recovery_rounds :: "action list \<Rightarrow> round list" where
  "recovery_rounds = List.map_filter (\<lambda>a. case a of RequestsRecovery r \<Rightarrow> Some r | _ \<Rightarrow> None)"

lemmas rounds_defs = proposed_rounds_def timed_out_rounds_def no_endorsed_rounds_def recovery_rounds_def

lemma map_filter_append: "List.map_filter f (xs @ ys) = List.map_filter f xs @ List.map_filter f ys"
  by (simp add: List.map_filter_def)

lemma subseq_map_filter: "subseq xs ys \<Longrightarrow> subseq (List.map_filter f xs) (List.map_filter f ys)"
  unfolding List.map_filter_def by (intro subseq_map subseq_filter)

lemma sorted_wrt_subseq: "subseq xs ys \<Longrightarrow> sorted_wrt P ys \<Longrightarrow> sorted_wrt P xs"
  by (induction rule: list_emb.induct) (auto dest: list_emb_set)

text \<open>The rounds of each kind of action so far are in order and not above the guard of the next.\<close>

definition actions_inv :: "('s, 'e) safety \<Rightarrow> action list \<Rightarrow> bool" where
  "actions_inv s as \<longleftrightarrow>
     sorted_wrt (<) (proposed_rounds as) \<and> list_all (\<lambda>r. r \<le> highest_propose s) (proposed_rounds as) \<and>
     sorted_wrt (\<le>) (timed_out_rounds as) \<and> list_all (\<lambda>r. r \<le> highest_vote s) (timed_out_rounds as) \<and>
     sorted_wrt (<) (no_endorsed_rounds as) \<and>
     list_all (\<lambda>r. r \<le> hne_round (highest_no_endorse s)) (no_endorsed_rounds as) \<and>
     sorted_wrt (<) (recovery_rounds as) \<and> list_all (\<lambda>r. r \<le> highest_recovery_request s) (recovery_rounds as)"

lemma process_certificate_recovery [simp]:
  "highest_recovery_request (safety_process_certificate s cert) = highest_recovery_request s"
  by (simp add: safety_process_certificate_def Let_def split: option.split)

lemma actions_inv_exec:
  assumes "actions_inv s as" and "safety_exec s c = Some s'"
  shows "actions_inv s' (as @ call_actions c)"
  using assms
  by (cases c) (fastforce simp: actions_inv_def rounds_defs map_filter_append List.map_filter_simps sorted_wrt_append
      list_all_iff safety_defs split: if_splits)+

lemma actions_inv_run: "safety_run s calls V s' \<Longrightarrow> actions_inv s' (concat (map call_actions calls))"
  by (induction rule: safety_run.induct)
     (simp_all add: actions_inv_exec, simp add: actions_inv_def rounds_defs List.map_filter_simps)

text \<open>
  C12. A node acts at most once per round: over any sequence of events, the rounds in which a node
  proposes, a new block or a tip again, strictly increase, and so do those in which it sends a
  no-endorsement and those in which it requests recovery; the rounds of its timeouts never decrease.
\<close>

theorem node_acts_once:
  assumes "node_run K E n cache evs cmds n' cache'"
  shows "sorted_wrt (<) (proposed_rounds (actions cmds)) \<and> sorted_wrt (<) (no_endorsed_rounds (actions cmds)) \<and>
    sorted_wrt (<) (recovery_rounds (actions cmds)) \<and> sorted_wrt (\<le>) (timed_out_rounds (actions cmds))"
proof -
  obtain calls V where s: "safety_run (n_safety n) calls V (n_safety n')"
    and "subseq (actions cmds) (concat (map call_actions calls))"
    using node_run_refines [OF assms] by (elim exE conjE) (rule that)
  then show ?thesis
    using actions_inv_run [OF s]
    unfolding actions_inv_def rounds_defs by (meson sorted_wrt_subseq subseq_map_filter)
qed

end
