(* ===== verification/Node_Ledger.thy ===== *)
theory Node_Ledger
  imports Node
begin

text \<open>
  What a node finalizes. The abstract ledger is the last finalized block with the state that finalized
  blocks build up, the block policy's and the epoch manager's; a block can only be appended on the last
  one. \<open>implements\<close> says that a step of the node appends to this ledger exactly the blocks it reports as
  finalized, and every event handler is shown to do so: a node finalizes one chain.
\<close>

section \<open>The abstract ledger\<close>

record 'p ledger =
  lg_tip :: block_id
  lg_policy :: 'p
  lg_epochs :: epoch_manager

definition ledger_append ::
  "('s, 'e, 'p) consensus_env \<Rightarrow> 'p ledger \<Rightarrow> ('s, 'e) consensus_full_block \<Rightarrow> 'p ledger option" where
  "ledger_append E l b =
     (if b_parent_id b \<noteq> lg_tip l then None
      else do {
        policy \<leftarrow> ce_update_committed_block E (lg_policy l) b;
        epochs \<leftarrow> schedule_epoch_start (lg_epochs l) (h_seq_num (b_header b)) (b_round b);
        Some \<lparr>lg_tip = b_id (ce_crypto E) b, lg_policy = policy, lg_epochs = epochs\<rparr> })"

fun ledger_extend ::
  "('s, 'e, 'p) consensus_env \<Rightarrow> 'p ledger \<Rightarrow> ('s, 'e) consensus_full_block list \<Rightarrow> 'p ledger option" where
  "ledger_extend E l [] = Some l"
| "ledger_extend E l (b # bs) = do { l' \<leftarrow> ledger_append E l b; ledger_extend E l' bs }"

definition ledger_of :: "('s, 'e, 'p) node \<Rightarrow> 'p ledger" where
  "ledger_of n = \<lparr>lg_tip = root_id (n_tree n), lg_policy = n_block_policy n, lg_epochs = n_epoch_manager n\<rparr>"

fun command_finalized :: "('s, 'e) consensus_command \<Rightarrow> ('s, 'e) consensus_full_block list" where
  "command_finalized (CC_CommitBlocks (Finalized b)) = [b]"
| "command_finalized _ = []"

abbreviation finalized :: "('s, 'e) consensus_command list \<Rightarrow> ('s, 'e) consensus_full_block list" where
  "finalized cmds \<equiv> concat (map command_finalized cmds)"

lemma ledger_extend_append:
  "ledger_extend E l (bs @ bs') = do { l' \<leftarrow> ledger_extend E l bs; ledger_extend E l' bs' }"
  by (induction bs arbitrary: l) (simp_all add: bind_assoc)

lemma ledger_extend_env:
  "ledger_extend (E\<lparr>ce_block_timestamp := clock, ce_val_epoch_map := vem\<rparr>) l bs = ledger_extend E l bs"
  by (induction bs arbitrary: l) (simp_all add: ledger_append_def)

section \<open>Blocks under their ids\<close>

definition keyed :: "('s, 'e) crypto \<Rightarrow> ('s, 'e) tree \<Rightarrow> bool" where
  "keyed C tr \<longleftrightarrow> (\<forall>i e. map_of (tr_tree tr) i = Some e \<longrightarrow> b_id C (te_block e) = i)"

lemma keyedD: "keyed C tr \<Longrightarrow> map_of (tr_tree tr) i = Some e \<Longrightarrow> b_id C (te_block e) = i"
  by (simp add: keyed_def)

lemma set_coherent_keyed: "keyed C tr \<Longrightarrow> set_coherent tr i c = Some tr' \<Longrightarrow> keyed C tr'"
  by (auto simp: keyed_def set_coherent_def update_conv' split: option.splits if_splits)

lemma tree_insert_keyed: "keyed C tr \<Longrightarrow> tree_insert C tr b = Some tr' \<Longrightarrow> keyed C tr'"
  by (auto simp: keyed_def tree_insert_def Let_def update_conv' split: option.splits if_splits)

lemma tree_remove_keyed:
  assumes "keyed C tr" and "tree_remove tr i = Some (tr', e)"
  shows "keyed C tr'" and "e = Some x \<Longrightarrow> b_id C (te_block x) = i"
  using assms
  by (auto simp: keyed_def tree_remove_def Let_def delete_conv' bind_eq_Some_conv split: option.splits if_splits)

lemma tree_remove_all_keyed: "keyed C tr \<Longrightarrow> tree_remove_all tr is = Some tr' \<Longrightarrow> keyed C tr'"
  by (induction tr "is" rule: tree_remove_all.induct)
     (auto simp: bind_eq_Some_conv dest: tree_remove_keyed)

lemma block_tree_add_keyed:
  assumes "keyed C (blk_tree t)" and "block_tree_add C t b = Some t'"
  shows "keyed C (blk_tree t') \<and> root_id t' = root_id t"
  using assms tree_insert_keyed
  by (fastforce simp: block_tree_add_def bind_eq_Some_conv split: if_splits)

lemma coherency_loop_keyed:
  assumes "coherency_loop C check t queue retval = Some r"
  shows "keyed C (blk_tree t) \<longrightarrow> keyed C (blk_tree (fst r)) \<and> root_id (fst r) = root_id t"
  by (rule coherency_loop.raw_induct [OF _ assms])
     (fastforce split: list.splits option.splits if_splits sum.splits dest: set_coherent_keyed)

lemma try_update_coherency_keyed:
  assumes "keyed C (blk_tree t)" and "block_tree_try_update_coherency C check t i = Some (t', bs)"
  shows "keyed C (blk_tree t') \<and> root_id t' = root_id t"
  using assms
  by (fastforce simp: block_tree_try_update_coherency_def bind_eq_Some_conv split: option.splits
      dest: coherency_loop_keyed)

section \<open>Chains\<close>

text \<open>Blocks that extend each other from \<open>p\<close> to \<open>q\<close>.\<close>

fun chain :: "('s, 'e) crypto \<Rightarrow> block_id \<Rightarrow> ('s, 'e) consensus_full_block list \<Rightarrow> block_id \<Rightarrow> bool" where
  "chain C p [] q \<longleftrightarrow> p = q"
| "chain C p (b # bs) q \<longleftrightarrow> b_parent_id b = p \<and> chain C (b_id C b) bs q"

lemma prune_loop_chain:
  assumes "prune_loop root tr entry commit = Some r"
  shows "keyed C tr \<longrightarrow> chain C (b_id C (te_block entry)) commit q \<longrightarrow> keyed C (fst r) \<and> chain C root (snd r) q"
  by (rule prune_loop.raw_induct [OF _ assms])
     (fastforce split: if_splits option.splits prod.splits dest: tree_remove_keyed)

lemma prune_chain:
  assumes k: "keyed C (blk_tree t)" and p: "prune C t i = Some (t', blocks)"
  shows "keyed C (blk_tree t') \<and> chain C (root_id t) blocks (root_id t')"
proof (cases "i = root_id t")
  case True
  then show ?thesis
    using k p by (auto simp: prune_def)
next
  case False
  then obtain tr1 entry tr2 dead where
    1: "tree_remove (blk_tree t) i = Some (tr1, Some entry)" and
    2: "prune_loop (root_id t) tr1 entry [] = Some (tr2, blocks)" and
    3: "tree_remove_all tr2 dead = Some (blk_tree t')" and
    4: "root_id t' = b_id C (te_block entry)"
    using p by (auto simp: prune_def Let_def bind_eq_Some_conv)
  have "keyed C tr2 \<and> chain C (root_id t) blocks (root_id t')"
    using prune_loop_chain [OF 2, of C "root_id t'"] tree_remove_keyed(1) [OF k 1] 4 by simp
  then show ?thesis
    using 3 tree_remove_all_keyed by blast
qed

section \<open>The node's ledger\<close>

lemma commit_blocks_ledger:
  assumes "commit_blocks E bs n = Some (n', cmds)" and "chain (ce_crypto E) p bs q"
  shows "n_tree n' = n_tree n \<and> finalized cmds = bs \<and>
    ledger_extend E \<lparr>lg_tip = p, lg_policy = n_block_policy n, lg_epochs = n_epoch_manager n\<rparr> bs =
      Some \<lparr>lg_tip = q, lg_policy = n_block_policy n', lg_epochs = n_epoch_manager n'\<rparr>"
  using assms
proof (induction bs arbitrary: n n' cmds p)
  case (Cons b bs)
  then show ?case
    by (fastforce simp: handler_defs ledger_append_def bind_eq_Some_conv)
qed (auto simp: h_skip_def)

definition implements :: "('s, 'e, 'p) consensus_env \<Rightarrow> ('s, 'e, 'p) relation" where
  "implements E n n' cmds \<longleftrightarrow>
     (keyed (ce_crypto E) (blk_tree (n_tree n)) \<longrightarrow>
      keyed (ce_crypto E) (blk_tree (n_tree n')) \<and>
      ledger_extend E (ledger_of n) (finalized cmds) = Some (ledger_of n'))"

interpretation im: handler_relation "implements E" for E
  by unfold_locales (auto simp: implements_def ledger_extend_append)

lemma implements_frame:
  assumes "n_tree n' = n_tree n" "n_block_policy n' = n_block_policy n" "n_epoch_manager n' = n_epoch_manager n"
    and "finalized cmds = []"
  shows "implements E n n' cmds"
  unfolding implements_def ledger_of_def assms by simp

lemma try_commit_implements: "obeys (implements E) (try_commit E qc) n"
proof -
  have "implements E n n' cmds"
    if p: "prune (ce_crypto E) (n_tree n) i = Some (t, bs)"
      and c: "commit_blocks E bs (n\<lparr>n_tree := t\<rparr>) = Some (n', cmds)" for i t bs n' cmds
    using commit_blocks_ledger [OF c] prune_chain [OF _ p]
    by (auto simp: implements_def ledger_of_def)
  then show ?thesis
    unfolding try_commit_def
    by (intro obeys_intros im.obeys_skip) (auto simp: obeys_def handler_defs bind_eq_Some_conv)
qed

lemma coherent_implements:
  assumes "block_tree_try_update_coherency (ce_crypto E) check (n_tree n) i = Some (t, bs)"
  shows "implements E n (n\<lparr>n_tree := t\<rparr>) (map (\<lambda>b. CC_CommitBlocks (Proposed b)) bs)"
proof -
  have fin: "finalized (map (\<lambda>b. CC_CommitBlocks (Proposed b)) bs) = []"
    by simp
  show ?thesis
    using try_update_coherency_keyed [OF _ assms] unfolding implements_def ledger_of_def fin by auto
qed

lemma add_implements: "block_tree_add (ce_crypto E) (n_tree n) b = Some t \<Longrightarrow> implements E n (n\<lparr>n_tree := t\<rparr>) []"
  using block_tree_add_keyed [of "ce_crypto E" "n_tree n" b t] by (auto simp: implements_def ledger_of_def)

lemma pacemaker_cmds_finalize: "finalized (concat (map (from_pacemaker_command E) pcmds)) = []"
proof -
  have "list_all (\<lambda>c. command_finalized c = []) (from_pacemaker_command E pc)" for pc
    by (cases pc) simp_all
  then show ?thesis
    by (auto simp: list_all_iff)
qed

lemma send_vote_implements: "obeys (implements E) (send_vote_and_reset_timer E' r v) n"
  unfolding send_vote_and_reset_timer_def Let_def
  by (intro im.obeys_rules obeys_emit obeys_update implements_frame) simp_all

lemma vote_implements: "obeys (implements E) (try_vote E' tc tip) n"
proof -
  have "obeys (implements E) (schedule_vote E' r p v) n" for r p v n
  proof -
    have "obeys (implements E) (h_update (n_scheduled_vote_update (\<lambda>_. Some (VoteReady v)))) n"
      by (intro obeys_update implements_frame) simp_all
    then show ?thesis
      unfolding schedule_vote_def Let_def
      by (auto intro!: obeys_get obeys_expect obeys_panic send_vote_implements
          split: option.split outgoing_vote_status.split)
  qed
  then show ?thesis
    unfolding try_vote_def Let_def
    by (intro im.obeys_rules obeys_update implements_frame) simp_all
qed

lemma timer_implements: "obeys (implements E) (handle_vote_timer E' r) n"
proof -
  have "obeys (implements E) (h_update (n_scheduled_vote_update (\<lambda>_. Some TimerFired))) n"
    by (intro obeys_update implements_frame) simp_all
  then show ?thesis
    unfolding handle_vote_timer_def
    by (auto intro!: obeys_get send_vote_implements split: option.split outgoing_vote_status.split)
qed

lemma quiet_finalize: "list_all quiet cmds \<Longrightarrow> finalized cmds = []"
proof (induction cmds)
  case (Cons c cmds)
  then show ?case
    by (cases c rule: quiet.cases) (auto split: protocol_message.splits)
qed simp

interpretation ml: node_relation "implements E" E for E
proof unfold_locales
  show "implements E n n cmds" if "list_all quiet cmds" for cmds and n :: "('a, 'b, 'c) node"
    using quiet_finalize [OF that] by (intro implements_frame) simp_all
qed (simp_all add: try_commit_implements coherent_implements add_implements vote_implements timer_implements
      implements_frame pacemaker_cmds_finalize del: concat_eq_Nil_conv)

lemma handle_event_implements:
  assumes "handle_event K E ev n cache = Some (n', cmds, cache')"
  shows "implements E n n' cmds"
  by (rule ml.event [OF _ assms]) (simp add: implements_frame)

lemma filter_finalized: "filter_cmds E n cmds = Some kept \<Longrightarrow> finalized kept = finalized cmds"
proof -
  have "command_finalized c = []" if "\<not> full_node_keeps c" for c :: "('a, 'b) consensus_command"
    using that by (cases c) simp_all
  then have "finalized (filter full_node_keeps cmds) = finalized cmds" for cmds :: "('a, 'b) consensus_command list"
    by (induction cmds) simp_all
  then show "filter_cmds E n cmds = Some kept \<Longrightarrow> finalized kept = finalized cmds"
    by (auto simp: filter_cmds_def get_role_def bind_eq_Some_conv split: if_splits)
qed

lemma node_run_ledger:
  assumes "node_run K E n cache evs cmds n' cache'" and "keyed (ce_crypto E) (blk_tree (n_tree n))"
  shows "keyed (ce_crypto E) (blk_tree (n_tree n')) \<and>
    ledger_extend E (ledger_of n) (finalized cmds) = Some (ledger_of n')"
  using assms
proof (induction rule: node_run.induct)
  case (nr_step n cache evs cmds n1 cache1 vem clock ev n2 kept cache2)
  let ?E = "E\<lparr>ce_block_timestamp := clock, ce_val_epoch_map := vem\<rparr>"
  obtain cmds' where h: "handle_event K ?E ev n1 cache1 = Some (n2, cmds', cache2)"
    and f: "filter_cmds ?E n2 cmds' = Some kept"
    using nr_step.hyps(2) by (auto simp: child_update_def bind_eq_Some_conv)
  show ?case
    using nr_step.IH [OF nr_step.prems] handle_event_implements [OF h] filter_finalized [OF f]
    by (simp add: implements_def ledger_extend_append ledger_extend_env)
qed simp

text \<open>
  C1. A node finalizes one chain: over any sequence of events, from any node whose block tree stores
  blocks under their ids, the blocks that the node reports as finalized extend, one after the other and
  each as the child of the one before, the ledger of its last finalized block; and this ledger, with the
  block policy and epoch schedule that those blocks build up, is the node's own at the end.
\<close>

theorem node_ledger_refinement:
  assumes "node_run K E n cache evs cmds n' cache'" and "keyed (ce_crypto E) (blk_tree (n_tree n))"
  shows "ledger_extend E (ledger_of n) (finalized cmds) = Some (ledger_of n')"
  using node_run_ledger [OF assms] ..

end
