(* ===== verification/Node_Rounds.thy ===== *)
theory Node_Rounds
  imports Node_Safety
begin

text \<open>
  The rounds of a node, and where its vote timer sends a vote. The rounds a node enters, as it tells
  its router and transaction pool, climb strictly to its current round; the relation \<open>advances\<close> says
  so of a step, and every event handler obeys it.
\<close>

section \<open>Entering rounds\<close>

fun climbs :: "round \<Rightarrow> round list \<Rightarrow> round \<Rightarrow> bool" where
  "climbs a [] b \<longleftrightarrow> a = b"
| "climbs a (r # rs) b \<longleftrightarrow> a < r \<and> climbs r rs b"

lemma climbs_append: "climbs a rs b \<Longrightarrow> climbs b rs' c \<Longrightarrow> climbs a (rs @ rs') c"
  by (induction rs arbitrary: a) auto

fun command_enters :: "('s, 'e) consensus_command \<Rightarrow> round list" where
  "command_enters (CC_EnterRound _ r) = [r]"
| "command_enters _ = []"

abbreviation entered :: "('s, 'e) consensus_command list \<Rightarrow> round list" where
  "entered cmds \<equiv> concat (map command_enters cmds)"

text \<open>The current round, where it does not overflow.\<close>

definition node_round :: "('s, 'e, 'p) node \<Rightarrow> round" where
  "node_round n = round_certificate_round (pm_high_certificate (n_pacemaker n)) + 1"

definition advances :: "('s, 'e, 'p) relation" where
  "advances n n' cmds \<longleftrightarrow> climbs (node_round n) (entered cmds) (node_round n')"

interpretation av: handler_relation advances
  by unfold_locales (auto simp: advances_def intro: climbs_append)

lemma advances_frame:
  assumes "pm_high_certificate (n_pacemaker n') = pm_high_certificate (n_pacemaker n)" and "entered cmds = []"
  shows "advances n n' cmds"
  unfolding advances_def node_round_def assms by simp

lemma certificate_advances:
  assumes "pacemaker_process_certificate (n_pacemaker n) em s cert = Some (n_pacemaker n', s', pcmds)"
  shows "advances n n' (pacemaker_cmds E pcmds)"
  using assms
  by (cases rule: certificate_cases) (auto simp: advances_def node_round_def)

lemma local_timeout_cmds:
  assumes "local_timeout_round pm s = Some (s', pcmds)"
  shows "entered (pacemaker_cmds E pcmds) = []"
  using assms by (cases rule: local_timeout_cases) simp

lemma join_timeout_advances:
  assumes "join_timeout pm vs s = Some (pm', s', pcmds)"
  shows "entered (pacemaker_cmds E pcmds) = [] \<and> pm_high_certificate pm' = pm_high_certificate pm"
  using assms
  by (auto simp: join_timeout_def bind_eq_Some_conv split: if_splits sum.splits
      dest!: local_timeout_cmds [where E = E] simp del: concat_eq_Nil_conv)

lemma local_timeout_advances:
  assumes "process_local_timeout (n_pacemaker n) s = Some (n_pacemaker n', s', pcmds)"
  shows "advances n n' (pacemaker_cmds E pcmds)"
  using assms local_timeout_cmds [of _ s s' pcmds E]
  by (intro advances_frame) (auto simp: process_local_timeout_def Let_def bind_eq_Some_conv
      dest!: sym [of _ "n_pacemaker n'"] simp del: concat_eq_Nil_conv)

lemma remote_timeout_advances:
  assumes "process_remote_timeout C (n_pacemaker n) em vs vm s author tm = Some (n_pacemaker n', s', pcmds)"
  shows "advances n n' (pacemaker_cmds E pcmds)"
  using assms
proof (cases rule: remote_timeout_cases)
  case old
  then show ?thesis
    by (intro advances_frame) simp_all
next
  case (joined pending pm2 q)
  then show ?thesis
    using join_timeout_advances [OF joined(1), of E] by (intro advances_frame) simp_all
next
  case (formed pending pm2 s2 pcmds1 q tc pcmds2)
  let ?n = "n\<lparr>n_pacemaker := pm2\<lparr>pm_pending_timeouts := q\<rparr>\<rparr>"
  have "advances n ?n (pacemaker_cmds E pcmds1)"
    using join_timeout_advances [OF formed(1), of E] by (intro advances_frame) simp_all
  moreover have "advances ?n n' (pacemaker_cmds E pcmds2)"
    using formed(2) by (intro certificate_advances) simp
  ultimately show ?thesis
    using av.trans formed(3) by fastforce
qed

text \<open>Votes and commits leave the pacemaker alone.\<close>

lemma send_vote_advances: "obeys advances (send_vote_and_reset_timer E r v) n"
  unfolding send_vote_and_reset_timer_def Let_def
  by (intro av.obeys_rules obeys_emit obeys_update advances_frame) simp_all

lemma vote_advances: "obeys advances (try_vote E tc tip) n"
proof -
  have "obeys advances (schedule_vote E r p v) n" for r p v n
  proof -
    have "obeys advances (h_update (n_scheduled_vote_update (\<lambda>_. Some (VoteReady v)))) n"
      by (intro obeys_update advances_frame) simp_all
    then show ?thesis
      unfolding schedule_vote_def Let_def
      by (auto intro!: obeys_get obeys_expect obeys_panic send_vote_advances
          split: option.split outgoing_vote_status.split)
  qed
  then show ?thesis
    unfolding try_vote_def Let_def by (intro av.obeys_rules obeys_update advances_frame) simp_all
qed

lemma timer_advances: "obeys advances (handle_vote_timer E r) n"
proof -
  have "obeys advances (h_update (n_scheduled_vote_update (\<lambda>_. Some TimerFired))) n"
    by (intro obeys_update advances_frame) simp_all
  then show ?thesis
    unfolding handle_vote_timer_def
    by (auto intro!: obeys_get send_vote_advances split: option.split outgoing_vote_status.split)
qed

lemma quiet_enters: "list_all quiet cmds \<Longrightarrow> entered cmds = []"
proof (induction cmds)
  case (Cons c cmds)
  then show ?case
    by (cases c rule: quiet.cases) (auto split: protocol_message.splits)
qed simp

lemma chain_only_advances:
  assumes "chain_only n n' cmds"
  shows "advances n n' cmds"
proof (rule advances_frame)
  have "command_enters c = []" if "c \<in> set cmds" for c
    using assms that by (cases c) (auto simp: chain_only_def)
  then show "entered cmds = []"
    by simp
qed (use assms in \<open>simp add: chain_only_def\<close>)

interpretation ar: node_relation advances E for E
proof unfold_locales
  fix n :: "('a, 'b, 'c) node"
  show "advances n n cmds" if "list_all quiet cmds" for cmds
    using quiet_enters [OF that] by (intro advances_frame) simp_all
  show "obeys advances (try_commit E qc) n" for qc
    using try_commit_chain_only [of E qc n] chain_only_advances by (auto simp: obeys_def)
qed (simp_all add: certificate_advances local_timeout_advances remote_timeout_advances vote_advances timer_advances
      chain_only_advances chain_only_def advances_frame)

lemma handle_event_advances:
  assumes "handle_event K E ev n cache = Some (n', cmds, cache')"
  shows "advances n n' cmds"
  by (rule ar.event [OF _ assms]) (simp add: advances_frame)

lemma filter_entered: "filter_cmds E n cmds = Some kept \<Longrightarrow> entered kept = entered cmds"
proof -
  have "command_enters c = []" if "\<not> full_node_keeps c" for c :: "('a, 'b) consensus_command"
    using that by (cases c) simp_all
  then have "entered (filter full_node_keeps cmds) = entered cmds" for cmds :: "('a, 'b) consensus_command list"
    by (induction cmds) simp_all
  then show "filter_cmds E n cmds = Some kept \<Longrightarrow> entered kept = entered cmds"
    by (auto simp: filter_cmds_def get_role_def bind_eq_Some_conv split: if_splits)
qed

text \<open>
  C13. The rounds of a node only go up: over any sequence of events the rounds that the node reports to
  enter strictly increase, all above its round at the start, and the last of them is its round at the
  end; without such a report its round is unchanged.
\<close>

theorem node_rounds_climb:
  assumes "node_run K E n cache evs cmds n' cache'"
  shows "climbs (node_round n) (entered cmds) (node_round n')"
  using assms
proof (induction rule: node_run.induct)
  case (nr_step n cache evs cmds n1 cache1 vem clock ev n2 kept cache2)
  let ?E = "E\<lparr>ce_block_timestamp := clock, ce_val_epoch_map := vem\<rparr>"
  obtain cmds' where h: "handle_event K ?E ev n1 cache1 = Some (n2, cmds', cache2)"
    and f: "filter_cmds ?E n2 cmds' = Some kept"
    using nr_step.hyps(2) by (auto simp: child_update_def bind_eq_Some_conv)
  show ?case
    using climbs_append [OF nr_step.IH] handle_event_advances [OF h] filter_entered [OF f]
    by (simp add: advances_def)
qed simp

section \<open>The vote timer\<close>

definition leader_of :: "('s, 'e, 'p) consensus_env \<Rightarrow> ('s, 'e, 'p) node \<Rightarrow> round \<Rightarrow> node_id option" where
  "leader_of E n r = do {
     e \<leftarrow> get_epoch (n_epoch_manager n) r;
     vs \<leftarrow> get_val_set (ce_val_epoch_map E) e;
     ce_election E r (validators vs) }"

lemma with_leader_eq: "with_leader E r f n = do { l \<leftarrow> leader_of E n r; f l n }"
  by (simp add: with_leader_def with_validators_def leader_of_def h_get_def h_expect_def bind_assoc)

lemma send_vote_result:
  assumes "send_vote_and_reset_timer E r v n = Some (n', cmds)"
  obtains l l' m where "leader_of E n (r + 1) = Some l" "leader_of E n r = Some l'"
    "n' = n\<lparr>n_scheduled_vote := None\<rparr>" "message_votes C (cm_message (vd_message m)) = {(v_round v, v_id v)}"
    "cmds = [CC_Publish (PointToPoint l) m] @ (if l' \<noteq> l then [CC_Publish (PointToPoint l') m] else []) @
       [CC_ScheduleVote (vote_pace (round_params E (r + 1))) (r + 1)]"
proof -
  let ?m = "sign_message E (Vote_Msg (vote_message_new (ce_crypto E) v (ce_cert_keypair E)))"
  obtain l l' where l: "leader_of E n (r + 1) = Some l" "leader_of E n r = Some l'"
    using assms by (auto simp: send_vote_and_reset_timer_def with_leader_eq h_expect_def Let_def bind_eq_Some_conv)
  show thesis
    by (rule that [OF l, where m = ?m])
       (use assms l in \<open>auto simp: send_vote_and_reset_timer_def with_leader_eq handler_defs Let_def
         vote_message_new_def bind_eq_Some_conv split: if_splits\<close>)
qed

text \<open>
  C14. When the vote timer of round \<open>r\<close> fires, a vote that waits for it is sent to the leaders of rounds
  \<open>r + 1\<close> and \<open>r\<close>, and to no one else, and the timer of round \<open>r + 1\<close> is started; without a vote
  waiting, the node records that the timer fired and sends nothing. The targets depend on the round of the
  timer only, also where the waiting vote is of a later round.
\<close>

theorem handle_vote_timer_correct:
  assumes "handle_vote_timer E r n = Some (n', cmds)"
  shows "case n_scheduled_vote n of
      Some (VoteReady v) \<Rightarrow>
        n' = n\<lparr>n_scheduled_vote := None\<rparr> \<and> votes_published C cmds = {(v_round v, v_id v)} \<and>
        (\<exists>next_leader current_leader. leader_of E n (r + 1) = Some next_leader \<and>
           leader_of E n r = Some current_leader \<and>
           {t. \<exists>m. CC_Publish t m \<in> set cmds} = {PointToPoint next_leader, PointToPoint current_leader}) \<and>
        CC_ScheduleVote (vote_pace (round_params E (r + 1))) (r + 1) \<in> set cmds
    | _ \<Rightarrow> n' = n\<lparr>n_scheduled_vote := Some TimerFired\<rparr> \<and> cmds = []"
proof (cases "\<exists>v. n_scheduled_vote n = Some (VoteReady v)")
  case True
  then obtain v where v: "n_scheduled_vote n = Some (VoteReady v)" ..
  then have "send_vote_and_reset_timer E r v n = Some (n', cmds)"
    using assms by (simp add: handle_vote_timer_def h_get_def)
  then obtain l l' m where "leader_of E n (r + 1) = Some l" "leader_of E n r = Some l'"
    "n' = n\<lparr>n_scheduled_vote := None\<rparr>" "message_votes C (cm_message (vd_message m)) = {(v_round v, v_id v)}"
    "cmds = [CC_Publish (PointToPoint l) m] @ (if l' \<noteq> l then [CC_Publish (PointToPoint l') m] else []) @
       [CC_ScheduleVote (vote_pace (round_params E (r + 1))) (r + 1)]"
    by (rule send_vote_result [where C = C])
  with v show ?thesis
    by auto
next
  case False
  with assms show ?thesis
    by (auto simp: handle_vote_timer_def handler_defs split: option.splits outgoing_vote_status.splits)
qed

end
