(* ===== verification/Node_Example.thy ===== *)
theory Node_Example
  imports Node_Rounds Node_Ledger Block_Tree_Growth
begin

text \<open>
  A node in epoch 3, its only validator, in round 6: it has the blocks of rounds 3 and 4 of
  \<open>chain_tree\<close> and waits for that of round 5, which its high QC certifies. Runs of this node are the
  concrete instances of the theorems on nodes.
\<close>

text \<open>Every signature collection verifies, as one of the only validator.\<close>

definition live_crypto :: "(unit, unit) crypto" where
  "live_crypto = chain_crypto\<lparr>sc_verify := (\<lambda>_ _ _. Inr [1])\<rparr>"

lemma live_crypto_id [simp]: "header_id live_crypto = header_id chain_crypto"
  by (simp add: live_crypto_def)

definition live_checks :: "(unit, unit, unit, unit) message_checks" where
  "live_checks =
     \<lparr>mc_cache_ops = \<lparr>rlp_qc = (\<lambda>_. ()), rlp_tc = (\<lambda>_. ()), rlp_nec = (\<lambda>_. ()), lru_new = (\<lambda>_. ()),
                      lru_put = (\<lambda>l _. l), lru_contains = (\<lambda>_ _. False)\<rparr>,
      mc_signature_ok = (\<lambda>_. True), mc_recover = (\<lambda>sig _. Some sig)\<rparr>"

definition live_cache :: "unit certificate_cache" where
  "live_cache = \<lparr>qc_lru = (), tc_lru = (), nec_lru = ()\<rparr>"

definition live_config :: consensus_config where
  "live_config =
     \<lparr>cfg_execution_delay = 3, cfg_delta = 200000000, cfg_chain_config = MONAD_DEVNET_CHAIN_CONFIG,
      cfg_live_to_statesync_threshold = 600, cfg_statesync_to_live_threshold = 300,
      cfg_start_execution_threshold = 300, cfg_timestamp_latency_estimate_ns = 10000000\<rparr>"

text \<open>The policy's state is the list of the rounds of committed blocks.\<close>

definition live_env :: "(unit, unit, round list) consensus_env" where
  "live_env =
     \<lparr>ce_crypto = live_crypto, ce_pubkey = (\<lambda>_. 1), ce_sign = (\<lambda>kp _. kp),
      ce_check_coherency = (\<lambda>_ _ _ _. Inr ()),
      ce_update_committed_block = (\<lambda>p b. Some (p @ [b_round b])),
      ce_expected_execution_results = (\<lambda>_ _ _. Inr []),
      ce_validate = (\<lambda>h body _ _ _ _ _. Inr \<lparr>b_header = h, b_body = body\<rparr>),
      ce_val_epoch_map = [(3, \<lparr>validators = [(1, 10)], total_stake = 10\<rparr>, [(1, 7), (2, 8)])],
      ce_election = (\<lambda>r _. Some (if r = 6 then 1 else if r = 7 then 3 else 2)), ce_version = 1,
      ce_block_timestamp = \<lparr>bts_local_time_ns = 100, bts_max_delta_ns = 50, bts_latency_estimate_ns = 1\<rparr>,
      ce_beneficiary = 0, ce_nodeid = 1, ce_config = live_config, ce_keypair = 7, ce_cert_keypair = 7\<rparr>"

definition live_qc :: "unit quorum_certificate" where
  "live_qc = \<lparr>qc_info = \<lparr>v_id = 1005, v_round = 5, v_epoch = 3\<rparr>, qc_signatures = ()\<rparr>"

definition live_pacemaker :: "(unit, unit) pacemaker" where
  "live_pacemaker =
     \<lparr>pm_delta = 200000000, pm_chain_config = MONAD_DEVNET_CHAIN_CONFIG, pm_local_processing = 200000000,
      pm_current_epoch = 3, pm_high_certificate = RC_Qc live_qc, pm_pending_timeouts = [], pm_phase = Phase_Zero\<rparr>"

definition live_node :: "(unit, unit, round list) node" where
  "live_node =
     \<lparr>n_tree = chain_tree, n_vote_state = vote_state_new 6, n_no_endorsement_state = no_endorsement_state_new 6,
      n_scheduled_vote = None, n_safety = safety_default\<lparr>highest_vote := 5\<rparr>, n_pacemaker = live_pacemaker,
      n_block_sync_requests = [(1005, \<lparr>bsr_range = \<lparr>br_last_block_id = 1005, br_num_blocks = 1\<rparr>, bsr_cancel_round = 5\<rparr>)],
      n_epoch_manager = \<lparr>epoch_length = 100, epoch_start_delay = 20, epoch_starts = [(3, 0)]\<rparr>,
      n_block_policy = []\<rparr>"

lemma live_env_simps [simp]:
  "ce_crypto live_env = live_crypto" "ce_check_coherency live_env p = (\<lambda>_ _ _. Inr ())"
  "ce_update_committed_block live_env p b = Some (p @ [b_round b])"
  "ce_expected_execution_results live_env p i bs = Inr []"
  "ce_validate live_env h body pk a1 a2 a3 a4 = Inr \<lparr>b_header = h, b_body = body\<rparr>"
  "ce_val_epoch_map live_env = [(3, \<lparr>validators = [(1, 10)], total_stake = 10\<rparr>, [(1, 7), (2, 8)])]"
  "ce_election live_env r vs = Some (if r = 6 then 1 else if r = 7 then 3 else 2)" "ce_nodeid live_env = 1"
  "ce_config live_env = live_config"
  by (simp_all add: live_env_def)

lemma live_node_simps [simp]:
  "n_tree live_node = chain_tree" "n_scheduled_vote live_node = None" "n_pacemaker live_node = live_pacemaker"
  "n_safety live_node = safety_default\<lparr>highest_vote := 5\<rparr>" "n_block_policy live_node = []"
  "n_epoch_manager live_node = \<lparr>epoch_length = 100, epoch_start_delay = 20, epoch_starts = [(3, 0)]\<rparr>"
  "n_block_sync_requests live_node =
     [(1005, \<lparr>bsr_range = \<lparr>br_last_block_id = 1005, br_num_blocks = 1\<rparr>, bsr_cancel_round = 5\<rparr>)]"
  by (simp_all add: live_node_def)

lemma live_pacemaker_simps [simp]:
  "pm_high_certificate live_pacemaker = RC_Qc live_qc" "pm_current_epoch live_pacemaker = 3"
  "pm_delta live_pacemaker = 200000000" "pm_local_processing live_pacemaker = 200000000"
  "pm_chain_config live_pacemaker = MONAD_DEVNET_CHAIN_CONFIG"
  "qc_round live_qc = 5" "qc_block_id live_qc = 1005"
  by (simp_all add: live_pacemaker_def live_qc_def)

lemmas live_eval = handler_defs with_current_round_def with_validators_def get_current_round_def get_epoch_def
  get_val_set_def get_role_def is_member_def filter_cmds_def child_update_def handle_event_def panic_defs Let_def
  wrap_rounds_def iter_upcoming_self_leader_rounds_def compute_upcoming_leader_round_pairs_def
  NUM_LEADERS_SELF_UPCOMING_def upt_rec

lemma live_env_same:
  "live_env\<lparr>ce_block_timestamp := ce_block_timestamp live_env, ce_val_epoch_map := ce_val_epoch_map live_env\<rparr> = live_env"
  by simp

lemma live_run_step:
  assumes "node_run live_checks live_env n live_cache evs cmds n1 live_cache"
    and "child_update live_checks live_env ev n1 live_cache = Some (n2, cmds', live_cache)"
  shows "node_run live_checks live_env n live_cache (evs @ [ev]) (cmds @ cmds') n2 live_cache"
  using nr_step [OF assms(1), of "ce_val_epoch_map live_env" "ce_block_timestamp live_env"] assms(2)
  unfolding live_env_same by fastforce

section \<open>A node that voted and times out twice\<close>

definition voter :: "(unit, unit, round list) node" where
  "voter = live_node\<lparr>n_safety := safety_default\<lparr>highest_vote := 6, high_certificate_qc_round := 5,
     maybe_high_tip := Some \<lparr>tip_block_header = b_header (chain_block 6 5), tip_signature = 0,
                              tip_fresh_certificate = None\<rparr>\<rparr>\<rparr>"

definition timed_out :: "(unit, unit, round list) node" where
  "timed_out = voter\<lparr>n_pacemaker := live_pacemaker\<lparr>pm_phase := Phase_One\<rparr>\<rparr>"

lemma voter_timeout:
  assumes "n = voter \<or> n = timed_out"
  shows "\<exists>cmds. child_update live_checks live_env (Timeout_Event 6) n live_cache = Some (timed_out, cmds, live_cache) \<and>
    votes_published live_crypto cmds = {(6, 1006)} \<and> actions cmds = [TimesOut 6]"
  using assms
  by (elim disjE) (simp_all add: live_eval handle_timeout_expiry_def run_pacemaker_def process_local_timeout_def
      local_timeout_round_def local_timeout_info_def safety_timeout_def get_round_timer_def timeout_new_def
      voter_def timed_out_def live_node_def safety_default_def get_chain_revision_def MONAD_DEVNET_CHAIN_CONFIG_def
      duration_from_millis_def duration_mul_def duration_add_def duration_max_def)

section \<open>A node that gets a missing block\<close>

abbreviation tree_entry :: "round \<Rightarrow> bool \<Rightarrow> block_id list \<Rightarrow> block_id \<times> (unit, unit) block_tree_entry" where
  "tree_entry r coherent children \<equiv>
     (r + 1000, \<lparr>te_block = chain_block r (r - 1), te_coherent = coherent, te_children = children\<rparr>)"

abbreviation payload :: "round \<Rightarrow> nat \<times> unit block_body_index" where
  "payload r \<equiv> (r, \<lparr>bi_body = (), bi_active_blocks = {r + 1000}\<rparr>)"

definition synced_tree :: "bool \<Rightarrow> (unit, unit) block_tree" where
  "synced_tree coherent =
     \<lparr>blk_root = blk_root chain_tree, blk_root_children = [1003],
      blk_tree = \<lparr>tr_tree = [tree_entry 3 True [1004], tree_entry 4 coherent [1005], tree_entry 5 coherent []],
                  tr_payloads = [payload 3, payload 4, payload 5]\<rparr>\<rparr>"

definition committed_tree :: "(unit, unit) block_tree" where
  "committed_tree =
     \<lparr>blk_root = \<lparr>ri_round = 3, ri_seq_num = 3, ri_epoch = 3, ri_block_id = 1003, ri_timestamp_ns = 0\<rparr>,
      blk_root_children = [1004],
      blk_tree = \<lparr>tr_tree = [tree_entry 4 True [1005], tree_entry 5 True []], tr_payloads = [payload 4, payload 5]\<rparr>\<rparr>"

lemma chain_block_simps [simp]:
  "h_epoch (b_header (chain_block r p)) = 3" "h_timestamp_ns (b_header (chain_block r p)) = 0"
  "h_author (b_header (chain_block r p)) = 2" "b_body (chain_block r p) = ()"
  by (auto simp: chain_block_def)

lemma sync_add: "block_tree_add live_crypto chain_tree (chain_block 5 4) = Some (synced_tree False)"
  by (simp add: block_tree_add_def is_valid_to_insert_def tree_insert_def synced_tree_def chain_tree_def get_or_def)

lemmas tree_eval = get_blocks_on_path_from_root_def path_loop.simps find_incoherent.simps set_coherent_def
  is_coherent_def get_block_def committable_def get_committable_id_def get_parent_id_def panic_defs

lemma sync_coherency:
  "block_tree_try_update_coherency live_crypto (\<lambda>_ _ _. Inr ()) (synced_tree False) 1005 =
     Some (synced_tree True, [chain_block 4 3, chain_block 5 4])"
  by (simp add: block_tree_try_update_coherency_def synced_tree_def tree_eval coherency_loop.simps chain_tree_def)

lemma sync_high_qc:
  "get_high_committable_qc live_crypto (synced_tree True) = Some (Some (h_qc (b_header (chain_block 5 4))))"
  by (simp add: get_high_committable_qc_def high_qc_loop.simps synced_tree_def tree_eval chain_tree_def)

lemma sync_prune: "prune live_crypto (synced_tree True) 1003 = Some (committed_tree, [chain_block 3 2])"
  by (simp add: prune_def synced_tree_def committed_tree_def tree_eval tree_remove_def prune_loop.simps chain_tree_def)

lemma committed_coherency:
  "block_tree_try_update_coherency live_crypto (\<lambda>_ _ _. Inr ()) committed_tree 1005 = Some (committed_tree, [])"
  "get_high_committable_qc live_crypto committed_tree = Some None"
  "get_blocks_on_path_from_root committed_tree 1005 = Some (Some [chain_block 4 3, chain_block 5 4])"
  "is_coherent committed_tree 1005" "maybe_fill_path_to_root committed_tree live_qc = Some None"
  "get_seq_num_of_qc committed_tree live_qc = Some 5" "ri_seq_num (blk_root committed_tree) = 3"
  by (simp_all add: block_tree_try_update_coherency_def get_high_committable_qc_def high_qc_loop.simps
      committed_tree_def tree_eval maybe_fill_path_to_root_def fill_path_loop.simps get_seq_num_of_qc_def)

lemma sync_commit:
  assumes "n_tree n = synced_tree True" and "n_block_policy n = []"
    and "n_epoch_manager n = \<lparr>epoch_length = 100, epoch_start_delay = 20, epoch_starts = [(3, 0)]\<rparr>"
  shows "try_commit live_env (h_qc (b_header (chain_block 5 4))) n =
    Some (n\<lparr>n_tree := committed_tree, n_block_policy := [3]\<rparr>, [CC_CommitBlocks (Finalized (chain_block 3 2))])"
proof -
  have "get_block (synced_tree True) 1004 = Some (chain_block 4 3)" "is_coherent (synced_tree True) 1003"
    by (simp_all add: synced_tree_def tree_eval)
  moreover have "get_committable_id live_crypto (h_qc (b_header (chain_block 5 4))) (b_header (chain_block 4 3)) =
      Some (Some 1003)"
    by (simp add: get_committable_id_def get_parent_id_def panic_defs)
  moreover have "schedule_epoch_start (n_epoch_manager n) 3 3 = Some (n_epoch_manager n)"
    by (simp add: schedule_epoch_start_def is_epoch_end_def assms panic_defs)
  ultimately show ?thesis
    using assms by (simp add: try_commit_def sync_prune handler_defs)
qed

lemma sync_update:
  assumes "n_tree n = synced_tree False" and "n_block_policy n = []"
    and "n_epoch_manager n = \<lparr>epoch_length = 100, epoch_start_delay = 20, epoch_starts = [(3, 0)]\<rparr>"
  shows "try_update_coherency live_env 1005 n =
    Some (n\<lparr>n_tree := committed_tree, n_block_policy := [3]\<rparr>,
      [CC_CommitBlocks (Proposed (chain_block 4 3)), CC_CommitBlocks (Proposed (chain_block 5 4)),
       CC_CommitBlocks (Finalized (chain_block 3 2))])"
  using assms sync_commit [of "n\<lparr>n_tree := synced_tree True\<rparr>"]
  by (simp add: try_update_coherency_def handler_defs sync_coherency sync_high_qc)

lemma committed_update:
  "n_tree n = committed_tree \<Longrightarrow> try_update_coherency live_env 1005 n = Some (n, [])"
  by (simp add: try_update_coherency_def handler_defs committed_coherency)

definition synced_node :: "(unit, unit, round list) node" where
  "synced_node = live_node\<lparr>n_tree := committed_tree, n_block_policy := [3],
     n_safety := safety_default\<lparr>highest_vote := 5, highest_propose := 6\<rparr>, n_block_sync_requests := []\<rparr>"

lemma sync_propose:
  assumes "n = live_node\<lparr>n_tree := committed_tree, n_block_policy := [3]\<rparr>"
  shows "\<exists>c. try_propose live_env n =
    Some (n\<lparr>n_safety := safety_default\<lparr>highest_vote := 5, highest_propose := 6\<rparr>\<rparr>, [CC_CreateProposal c]) \<and>
    cpr_round c = 6 \<and> cpr_seq_num c = 6 \<and> cpr_extending_blocks c = [chain_block 4 3, chain_block 5 4]"
  using assms
  by (simp add: try_propose_def live_eval request_tip_if_missing_def proposal_basis_def propose_fresh_def
      committed_update committed_coherency safety_defs safety_default_def GENESIS_ROUND_def)

definition sync_event :: "(unit, unit) consensus_event" where
  "sync_event = BlockSync_Event \<lparr>br_last_block_id = 1005, br_num_blocks = 1\<rparr> [chain_block 5 4]"

lemma sync_validate: "validate_block live_env live_node (b_header (chain_block 5 4)) () = Some (Some (chain_block 5 4))"
  by (simp add: validate_block_def live_eval get_cert_pubkeys_def get_block_def chain_tree_entries)

lemma sync_step:
  "\<exists>c. child_update live_checks live_env sync_event live_node live_cache =
     Some (synced_node,
       [CC_CommitBlocks (Proposed (chain_block 4 3)), CC_CommitBlocks (Proposed (chain_block 5 4)),
        CC_CommitBlocks (Finalized (chain_block 3 2)), CC_CreateProposal c], live_cache) \<and> cpr_round c = 6"
proof -
  obtain c where c: "try_propose live_env (live_node\<lparr>n_tree := committed_tree, n_block_policy := [3]\<rparr>) =
      Some (live_node\<lparr>n_tree := committed_tree, n_block_policy := [3],
        n_safety := safety_default\<lparr>highest_vote := 5, highest_propose := 6\<rparr>\<rparr>, [CC_CreateProposal c])"
    "cpr_round c = 6"
    using sync_propose [OF refl] by auto
  have valid: "is_valid_to_insert live_crypto chain_tree (b_header (chain_block 5 4))"
    by (simp add: is_valid_to_insert_def chain_tree_entries)
  show ?thesis
    using c valid sync_validate
    by (simp add: live_eval sync_event_def handle_block_sync_def try_add_and_commit_blocktree_def sync_add
        sync_update maybe_statesync_def committed_coherency live_config_def request_blocks_if_missing_ancestor_def
        synced_node_def bt_remove_def)
qed

section \<open>A node that learns a certificate\<close>

definition next_qc :: "unit quorum_certificate" where
  "next_qc = \<lparr>qc_info = \<lparr>v_id = 1006, v_round = 6, v_epoch = 3\<rparr>, qc_signatures = ()\<rparr>"

definition advance_event :: "(unit, unit) consensus_event" where
  "advance_event = Message_Event 1
     \<lparr>cm_version = 1, cm_message = AdvanceRound_Msg \<lparr>ar_last_round_certificate = RC_Qc next_qc\<rparr>\<rparr> 1"

lemma next_qc_simps [simp]: "qc_round next_qc = 6" "qc_block_id next_qc = 1006" "qc_epoch next_qc = 3"
  by (simp_all add: next_qc_def)

lemma live_quorum: "has_super_majority_votes \<lparr>validators = [(Suc 0, 10)], total_stake = 10\<rparr> [Suc 0] = Some (Inr True)"
  by (simp add: has_super_majority_votes_def has_threshold_votes_def calculate_current_stake_def stake_sum_def stake_add_def checked_add_word_def
      panic_defs)

lemma advance_valid:
  "verify_and_validate_consensus_message live_checks live_env (n_epoch_manager live_node)
     \<lparr>cm_version = 1, cm_message = AdvanceRound_Msg \<lparr>ar_last_round_certificate = RC_Qc next_qc\<rparr>\<rparr> 1 live_cache =
   Some (Some \<lparr>vd_author = 1,
     vd_message = \<lparr>cm_version = 1, cm_message = AdvanceRound_Msg \<lparr>ar_last_round_certificate = RC_Qc next_qc\<rparr>\<rparr>,
     vd_author_signature = 1\<rparr>, live_cache)"
  by (simp add: verify_and_validate_consensus_message_def live_eval message_verify_def message_get_round_def
      valid_pubkey_def live_checks_def live_env_def message_validate_def advance_round_validate_def
      verify_round_certificate_def verify_qc_def epoch_to_validators_def get_cert_pubkeys_def check_signatures_def
      check_super_majority_def check_ok_def check_that_def check_lift_def check_bind_def check_then_def check_update_def
      qc_is_cached_validated_def cache_validated_qc_def live_crypto_def GENESIS_ROUND_def live_quorum live_cache_def)

lemma advance_step:
  "\<exists>n' cmds. child_update live_checks live_env advance_event live_node live_cache = Some (n', cmds, live_cache) \<and>
     entered cmds = [7]"
proof -
  have "maybe_fill_path_to_root chain_tree next_qc = Some (Some \<lparr>br_last_block_id = 1006, br_num_blocks = 1\<rparr>)"
    "get_seq_num_of_qc chain_tree live_qc = None" "get_block chain_tree 1006 = None"
    by (simp_all add: maybe_fill_path_to_root_def fill_path_loop.simps get_seq_num_of_qc_def get_block_def
        chain_tree_entries)
  then show ?thesis
    using advance_valid
    by (simp add: live_eval advance_event_def handle_verified_message_def handle_advance_round_message_def
        process_qc_def try_commit_def cancel_obsolete_requests_def maybe_statesync_def run_pacemaker_def
        pacemaker_process_certificate_def get_round_timer_def duration_from_millis_def duration_mul_def
        duration_add_def duration_max_def get_chain_revision_def MONAD_DEVNET_CHAIN_CONFIG_def
        request_blocks_if_missing_ancestor_def start_new_round_def try_propose_def)
qed

section \<open>Instances of the theorems\<close>

theorem events_refine_safety_witness:
  "\<exists>n' cmds calls V.
     handle_event live_checks live_env (Timeout_Event 6) voter live_cache = Some (n', cmds, live_cache) \<and>
     (6, 1006) \<in> votes_published live_crypto cmds \<and> safety_run (n_safety voter) calls V (n_safety n') \<and>
     actions cmds = concat (map call_actions calls) \<and> (6, 1006) \<in> vote_ids live_crypto V"
proof -
  obtain cmds where c: "child_update live_checks live_env (Timeout_Event 6) voter live_cache =
      Some (timed_out, cmds, live_cache)" "votes_published live_crypto cmds = {(6, 1006)}"
    using voter_timeout by blast
  then obtain cmds' where h: "handle_event live_checks live_env (Timeout_Event 6) voter live_cache =
      Some (timed_out, cmds', live_cache)" and f: "filter_cmds live_env timed_out cmds' = Some cmds"
    by (auto simp: child_update_def bind_eq_Some_conv)
  have v: "(6, 1006) \<in> votes_published live_crypto cmds'"
    using filter_cmds_subset(2) [OF f, of live_crypto] c(2) by auto
  have "ready_votes voter = {}"
    by (simp add: ready_votes_def voter_def)
  then show ?thesis
    using events_refine_safety [OF h] h v by auto
qed

lemma voter_run:
  "\<exists>cmds. node_run live_checks live_env voter live_cache [Timeout_Event 6, Timeout_Event 6] cmds timed_out live_cache \<and>
     votes_published live_crypto cmds = {(6, 1006)}"
proof -
  obtain c1 where
    c1: "child_update live_checks live_env (Timeout_Event 6) voter live_cache = Some (timed_out, c1, live_cache)"
      "votes_published live_crypto c1 = {(6, 1006)}"
    using voter_timeout [of voter] by auto
  obtain c2 where
    c2: "child_update live_checks live_env (Timeout_Event 6) timed_out live_cache = Some (timed_out, c2, live_cache)"
      "votes_published live_crypto c2 = {(6, 1006)}"
    using voter_timeout [of timed_out] by auto
  show ?thesis
    by (rule exI [of _ "c1 @ c2"]) (use live_run_step [OF live_run_step [OF nr_init c1(1)] c2(1)] c1(2) c2(2) in simp)
qed

theorem node_votes_once_witness:
  "\<exists>cmds. node_run live_checks live_env voter live_cache [Timeout_Event 6, Timeout_Event 6] cmds timed_out live_cache \<and>
     {b. (6, b) \<in> votes_published live_crypto cmds} = {1006}"
proof -
  obtain cmds where run:
    "node_run live_checks live_env voter live_cache [Timeout_Event 6, Timeout_Event 6] cmds timed_out live_cache"
    and v: "(6, 1006) \<in> votes_published live_crypto cmds"
    using voter_run by auto
  have "ready_votes voter = {}"
    by (simp add: ready_votes_def voter_def)
  then have "b = 1006" if "(6, b) \<in> votes_published live_crypto cmds" for b
    using node_votes_once [OF run, of 6 b 1006] v that by simp
  then show ?thesis
    by (intro exI [of _ cmds] conjI run) (use v in blast)
qed

lemma synced_run:
  "\<exists>cmds. node_run live_checks live_env live_node live_cache [sync_event] cmds synced_node live_cache \<and>
     proposed_rounds (actions cmds) = [6] \<and> finalized cmds = [chain_block 3 2]"
  using sync_step live_run_step [OF nr_init, of sync_event]
  by (fastforce simp: rounds_defs List.map_filter_simps)

theorem node_acts_once_witness:
  "\<exists>cmds. node_run live_checks live_env live_node live_cache [sync_event] cmds synced_node live_cache \<and>
     proposed_rounds (actions cmds) = [6] \<and> sorted_wrt (<) (proposed_rounds (actions cmds))"
  using synced_run node_acts_once by blast

theorem node_ledger_refinement_witness:
  "\<exists>cmds. node_run live_checks live_env live_node live_cache [sync_event] cmds synced_node live_cache \<and>
     finalized cmds = [chain_block 3 2] \<and>
     ledger_extend live_env (ledger_of live_node) (finalized cmds) = Some (ledger_of synced_node) \<and>
     lg_policy (ledger_of synced_node) = [3] \<and> lg_tip (ledger_of synced_node) = 1003"
proof -
  have "keyed (ce_crypto live_env) (blk_tree (n_tree live_node))"
    by (simp add: keyed_def chain_tree_entries)
  moreover have "lg_policy (ledger_of synced_node) = [3]" "lg_tip (ledger_of synced_node) = 1003"
    by (simp_all add: ledger_of_def synced_node_def committed_tree_def)
  ultimately show ?thesis
    using synced_run node_ledger_refinement by blast
qed

theorem node_rounds_climb_witness:
  "\<exists>cmds n'. node_run live_checks live_env live_node live_cache [advance_event] cmds n' live_cache \<and>
     entered cmds = [7] \<and> node_round live_node = 6 \<and> node_round n' = 7"
proof -
  obtain cmds n' where run: "node_run live_checks live_env live_node live_cache [advance_event] cmds n' live_cache"
    and e: "entered cmds = [7]"
    using advance_step live_run_step [OF nr_init, of advance_event] by fastforce
  have "node_round live_node = 6"
    by (simp add: node_round_def)
  then show ?thesis
    using node_rounds_climb [OF run] run e by auto
qed

text \<open>A vote of round 6 under the timer of round 5 goes to the leaders of rounds 6 and 5, not to that of round 7.\<close>

theorem handle_vote_timer_correct_witness:
  "\<exists>n' cmds. handle_vote_timer live_env 5
       (live_node\<lparr>n_scheduled_vote := Some (VoteReady \<lparr>v_id = 1006, v_round = 6, v_epoch = 3\<rparr>)\<rparr>) = Some (n', cmds) \<and>
     votes_published live_crypto cmds = {(6, 1006)} \<and>
     {t. \<exists>m. CC_Publish t m \<in> set cmds} = {PointToPoint 1, PointToPoint 2} \<and>
     leader_of live_env live_node 7 = Some 3"
proof -
  let ?n = "live_node\<lparr>n_scheduled_vote := Some (VoteReady \<lparr>v_id = 1006, v_round = 6, v_epoch = 3\<rparr>)\<rparr>"
  have l: "leader_of live_env ?n 6 = Some 1" "leader_of live_env ?n 5 = Some 2" "leader_of live_env live_node 7 = Some 3"
    by (simp_all add: leader_of_def live_eval)
  have "\<exists>n' cmds. handle_vote_timer live_env 5 ?n = Some (n', cmds)"
    by (simp add: handle_vote_timer_def send_vote_and_reset_timer_def with_leader_def live_eval)
  then obtain n' cmds where h: "handle_vote_timer live_env 5 ?n = Some (n', cmds)"
    by auto
  from handle_vote_timer_correct [OF h, of live_crypto] l show ?thesis
    using h by auto
qed

end
