(* ===== verification/Spec2Isabelle.thy ===== *)
theory Spec2Isabelle
  imports Prelude Primitives Validators Epochs Leaders Certificates SigCollection Safety_Module Votes
    Chain_Config Pacemaker Messages Validation Acceptance Block_Tree Block_Tree_Growth Coherency Timestamps
    Consensus Handler_Relations Node Node_Safety Node_Ledger Node_Rounds Node_Example
begin

text \<open>
  Verification of the consensus core of the MonadBFT node.

  \<^bold>\<open>The program.\<close> A MonadBFT validator runs rounds with one leader each. The leader proposes a block
  on its highest quorum certificate (QC) or tip; validators vote for it, the votes of a super
  majority form the next QC, and two QCs of consecutive rounds commit a block. A round without
  progress ends by a timeout certificate (TC), after which the leader reproposes the highest tip or
  collects no-endorsements (NEC) for a fresh proposal. The modelled parts, from the bottom up:

  \<^item> \<open>Prelude\<close>: panics, results, checked and wrapping arithmetic, and the two map types of the
    standard library (\<open>BTreeMap\<close> as a sorted association list, \<open>HashMap\<close> as one with distinct
    keys), with the contract of a map as the locale \<open>keyed_map\<close>, interpreted on both.
  \<^item> \<open>Primitives\<close>: rounds, epochs, sequence numbers and stakes (\<open>monad-types\<close>).
  \<^item> \<open>Validators\<close>: the validator set and its stake thresholds (\<open>validator_set.rs\<close>).
  \<^item> \<open>Epochs\<close>: the epoch manager and the validators of each epoch (\<open>epoch_manager.rs\<close>,
    \<open>validators_epoch_mapping.rs\<close>, \<open>validator_mapping.rs\<close>).
  \<^item> \<open>Leaders\<close>: round-robin and stake-weighted leader election.
  \<^item> \<open>Certificates\<close>: votes, QCs, TCs, NECs, tips, block headers and their constructors
    (\<open>monad-consensus-types\<close>).
  \<^item> \<open>SigCollection\<close>: the contract of a signature collection as the locale
    \<open>signature_collection\<close>, and \<open>MultiSig\<close> as its interpretation (\<open>multi_sig.rs\<close>).
  \<^item> \<open>Safety_Module\<close>: the voting rules (\<open>safety.rs\<close>); \<open>Votes\<close>: the aggregation of votes and
    no-endorsements (\<open>vote_state.rs\<close>, \<open>no_endorsement_state.rs\<close>); \<open>Pacemaker\<close>: rounds, timers
    and timeouts (\<open>pacemaker.rs\<close>); \<open>Chain_Config\<close>: parameters by round (\<open>monad-chain-config\<close>).
  \<^item> \<open>Messages\<close>: the protocol messages; \<open>Validation\<close>: the validation of every message and
    certificate with its cache (\<open>signing.rs\<close>, \<open>certificate_cache.rs\<close>); \<open>Acceptance\<close>: what
    building and validating certificates give together.
  \<^item> \<open>Block_Tree\<close> and \<open>Block_Tree_Growth\<close>: the tree of uncommitted blocks (\<open>tree.rs\<close>,
    \<open>blocktree.rs\<close>).

  \<^bold>\<open>How the code is modelled.\<close> A struct is a record, an enum a datatype, a method a function on the
  state that returns the new state. A panic (\<open>assert!\<close>, \<open>expect\<close>, overflow of a checked operation)
  is \<open>None\<close>; a \<open>Result\<close> is a sum. Rounds, epochs and sequence numbers are natural numbers with
  operations checked against the 64-bit maximum; stakes are 256-bit words, which wrap; timestamps
  are 128-bit words. Third-party code is a parameter: signatures, hashes and the block id are the
  fields of the record \<open>crypto\<close>, the LRU map of the certificate cache and its RLP keys are the
  record \<open>cache_ops\<close>, the random generator of the election and the execution state behind the
  block policy are function arguments. What is assumed of them are the laws of
  \<open>signature_collection\<close>, \<open>cache_ops_ok\<close> and \<open>validation_env_ok\<close>, each with an instance.

  \<^bold>\<open>What is shown.\<close> Safety: a node signs one vote per round, super majorities intersect in an honest
  node, hence two accepted QCs of a round agree on the block. Validation: an accepted message
  carries only certificates signed by a super majority, and no input makes validation panic;
  certificates built from valid votes and timeouts are accepted. Vote state, no-endorsement state
  and pacemaker create each certificate once, from enough valid signatures, and their loops end.
  Leaders are staked members, chosen in proportion to their stake. The block tree keeps its
  invariant under insertion and pruning, and pruning commits exactly the path to the new root.

  \<^bold>\<open>Loops.\<close> No fuel is used. Loops over data are structural recursions or have a measure; walks
  along the links of the block tree are \<open>partial_function\<close>s, proved to return on well-formed trees.

  \<^bold>\<open>Not modelled.\<close> Metrics and tracing (no effect on the state); \<open>debug_assert!\<close> (not part of a
  release build); RLP and serde encodings; networking, storage, RPC and the other executors, which
  perform I/O; the transaction pool and the Ethereum block policy and validator, which work on
  third-party types and the execution state; simulators and test utilities.
\<close>

end
